theory Spec2Isabelle
  imports Main "HOL-Library.Word"
begin

unbundle bit_operations_syntax

section \<open>Bytes, strings and 32-bit little-endian integers\<close>

type_synonym byte = "8 word"
type_synonym uint32 = "32 word"

definition byte_of_char :: "char \<Rightarrow> byte" where
  "byte_of_char c = word_of_nat (of_char c)"

text \<open>The bytes of a C string literal, without its terminating NUL.\<close>

definition bytes_of :: "string \<Rightarrow> byte list" where
  "bytes_of s = map byte_of_char s"

text \<open>
  \<open>htole32 x\<close> is the memory image of the \<open>uint32_t\<close> that \<open>htole32(x)\<close> returns, which is
  what \<open>send_bytes(fd, &v, 4)\<close> transmits; \<open>le32toh bs\<close> is \<open>le32toh(v)\<close> for a \<open>uint32_t v\<close>
  whose four bytes in memory are \<open>bs\<close>.
\<close>

definition htole32 :: "uint32 \<Rightarrow> byte list" where
  "htole32 x = [ucast (x AND 0xFF), ucast (drop_bit 8 x AND 0xFF),
                ucast (drop_bit 16 x AND 0xFF), ucast (drop_bit 24 x AND 0xFF)]"

definition le32toh :: "byte list \<Rightarrow> uint32" where
  "le32toh bs = ucast (bs ! 0) OR push_bit 8 (ucast (bs ! 1))
                OR push_bit 16 (ucast (bs ! 2)) OR push_bit 24 (ucast (bs ! 3))"

section \<open>The server (facedetect.c)\<close>

subsection \<open>Constants\<close>

definition PREFIX :: uint32 where "PREFIX = 0x23107231"
definition ERROR_OPERATION :: byte where "ERROR_OPERATION = 3"
definition OPERATION_ERROR :: byte where "OPERATION_ERROR = 5"
definition COMMAND_LINE_ERROR :: nat where "COMMAND_LINE_ERROR = 19"
definition MAX_CONNECTIONS :: int where "MAX_CONNECTIONS = 10000"
definition PORTNUM_INDEX :: nat where "PORTNUM_INDEX = 3"
definition EXTRA_CMD_LINE_ARGS :: nat where "EXTRA_CMD_LINE_ARGS = 4"
definition PORTNUM_INCLUDED :: nat where "PORTNUM_INCLUDED = 4"
definition UINT32_MAX :: nat where "UINT32_MAX = 4294967295"
definition ULONG_MAX :: nat where "ULONG_MAX = 18446744073709551615"
definition LONG_MAX :: nat where "LONG_MAX = 9223372036854775807"

subsection \<open>Command line\<close>

record CmdLineParams =
  connectionLimit :: int
  maxSize :: uint32
  portnum :: string
  portnumGiven :: bool

definition isdigit :: "char \<Rightarrow> bool" where
  "isdigit c = (c \<in> set ''0123456789'')"

text \<open>
  \<open>valid_cmd_line_number\<close>: a non-empty string of decimal digits, optionally preceded by one
  \<open>+\<close> that is not the whole string. (The \<open>NULL\<close> test of the source cannot fire: the
  function is only called on \<open>argv[i]\<close> with \<open>i < argc\<close>.)
\<close>

fun valid_cmd_line_number :: "string \<Rightarrow> bool" where
  "valid_cmd_line_number [] = False"
| "valid_cmd_line_number (c # cs) =
     (if c = CHR ''+'' then cs \<noteq> [] \<and> list_all isdigit cs
      else list_all isdigit (c # cs))"

definition digit_val :: "char \<Rightarrow> nat" where
  "digit_val c = of_char c - 48"

definition decimal :: "string \<Rightarrow> nat" where
  "decimal s = foldl (\<lambda>acc c. 10 * acc + digit_val c) 0 s"

definition skip_plus :: "string \<Rightarrow> string" where
  "skip_plus s = (case s of [] \<Rightarrow> [] | c # cs \<Rightarrow> if c = CHR ''+'' then cs else s)"

text \<open>
  The C library on strings accepted by \<open>valid_cmd_line_number\<close> (the only ones the server
  passes): \<open>strtoul\<close> saturates at \<open>ULONG_MAX\<close> and reports \<open>ERANGE\<close>; \<open>atoi\<close> is glibc's
  \<open>(int) strtol(s, NULL, 10)\<close>, which saturates at \<open>LONG_MAX\<close> and then keeps the low 32 bits.
\<close>

definition strtoul :: "string \<Rightarrow> nat \<times> bool" where
  "strtoul s = (let v = decimal (skip_plus s)
                in if v > ULONG_MAX then (ULONG_MAX, True) else (v, False))"

definition atoi :: "string \<Rightarrow> int" where
  "atoi s = sint (word_of_nat (min (decimal (skip_plus s)) LONG_MAX) :: 32 word)"

text \<open>
  \<open>parse_command_line\<close>; \<open>argc\<close> is the length of \<open>argv\<close>, and \<open>Inl c\<close> is
  \<open>command_line_error()\<close>: the usage line on stderr and \<open>exit(c)\<close>.
\<close>

definition parse_command_line :: "string list \<Rightarrow> nat + CmdLineParams" where
  "parse_command_line argv =
     (let argc = length argv in
      if argc < PORTNUM_INDEX \<or> argc > EXTRA_CMD_LINE_ARGS then Inl COMMAND_LINE_ERROR
      else if \<not> valid_cmd_line_number (argv ! 1) then Inl COMMAND_LINE_ERROR
      else if atoi (argv ! 1) > MAX_CONNECTIONS then Inl COMMAND_LINE_ERROR
      else if \<not> valid_cmd_line_number (argv ! 2) then Inl COMMAND_LINE_ERROR
      else
        (let (test, erange) = strtoul (argv ! 2) in
         if erange \<or> test > UINT32_MAX then Inl COMMAND_LINE_ERROR
         else
           (let params = \<lparr>connectionLimit = atoi (argv ! 1),
                          maxSize = (if (word_of_nat test :: uint32) = 0
                                     then word_of_nat UINT32_MAX else word_of_nat test),
                          portnum = ''0'', portnumGiven = False\<rparr>
            in if argc = PORTNUM_INCLUDED then
                 (if argv ! PORTNUM_INDEX = [] then Inl COMMAND_LINE_ERROR
                  else if valid_cmd_line_number (argv ! PORTNUM_INDEX)
                          \<and> atoi (argv ! PORTNUM_INDEX) = 0 then Inr params
                  else Inr (params\<lparr>portnum := argv ! PORTNUM_INDEX, portnumGiven := True\<rparr>))
               else Inr params)))"

subsection \<open>Statistics, connection state and the external image library\<close>

record Statistics =
  currClients :: uint32
  prevClients :: uint32
  faceDetections :: uint32
  faceReplacements :: uint32
  badRequests :: uint32

datatype mutex = FileLock | CascadeLock | StatsLock

datatype event = Lock mutex | Unlock mutex | DetectorEnter | DetectorExit

text \<open>
  What a worker thread sees and changes. \<open>sock_in\<close> are the bytes the peer delivers on the
  client socket before end-of-file (or a read error); \<open>sock_out\<close> are the bytes the worker has
  handed to \<open>send\<close>, in order; \<open>sock_closed\<close> records \<open>shutdown(SHUT_WR)\<close> followed by
  \<open>close\<close>; \<open>sem_posts\<close> counts \<open>sem_post\<close> on the admission semaphore; \<open>events\<close> is the
  thread's history of mutex operations and of entries into \<open>cvHaarDetectObjects\<close>.
\<close>

record world =
  sock_in :: "byte list"
  sock_out :: "byte list"
  sock_closed :: bool
  stats :: Statistics
  sem_posts :: nat
  events :: "event list"

record ClientInfo =
  info_maxSize :: uint32
  info_limitConnections :: bool

text \<open>
  C's \<open>int\<close> in the arithmetic on rectangles: 32 bits in two's complement. \<open>CvRect\<close> is
  \<open>x\<close>, \<open>y\<close>, \<open>width\<close>, \<open>height\<close>.
\<close>

type_synonym int32 = "32 word"
type_synonym CvRect = "int32 \<times> int32 \<times> int32 \<times> int32"

text \<open>
  The OpenCV operations and the files the server uses, as parameters: loading the scratch
  file after the given bytes were written to it (\<open>None\<close> is a failed write or a \<open>NULL\<close>
  image), \<open>grey_image\<close>, whether \<open>cvCreateMemStorage\<close> gave storage, the two Haar detectors,
  the drawing primitives, the resize-and-copy of one face in \<open>replace_face\<close>, \<open>cvSaveImage\<close>
  followed by reading the scratch file back, and the contents of the bad-prefix response file.
\<close>

record 'img opencv =
  responsefile :: "byte list"
  cvLoadImage_color :: "byte list \<Rightarrow> 'img option"
  cvLoadImage_unchanged :: "byte list \<Rightarrow> 'img option"
  grey_image :: "'img \<Rightarrow> 'img"
  cvCreateMemStorage :: "'img \<Rightarrow> bool"
  detect_faces :: "'img \<Rightarrow> CvRect list"
  detect_eyes :: "'img \<Rightarrow> CvRect \<Rightarrow> CvRect list"
  cvEllipse :: "'img \<Rightarrow> int32 \<times> int32 \<Rightarrow> int32 \<times> int32 \<Rightarrow> 'img"
  cvCircle :: "'img \<Rightarrow> int32 \<times> int32 \<Rightarrow> int32 \<Rightarrow> 'img"
  replace_pixels :: "'img \<Rightarrow> 'img \<Rightarrow> CvRect \<Rightarrow> 'img"
  cvSaveImage :: "'img \<Rightarrow> byte list"

subsection \<open>Framed I/O\<close>

definition lock :: "mutex \<Rightarrow> world \<Rightarrow> world" where
  "lock m w = w\<lparr>events := events w @ [Lock m]\<rparr>"

definition unlock :: "mutex \<Rightarrow> world \<Rightarrow> world" where
  "unlock m w = w\<lparr>events := events w @ [Unlock m]\<rparr>"

text \<open>
  \<open>read_bytes\<close> on the client socket: all \<open>n\<close> bytes, or \<open>None\<close> for the source's \<open>-1\<close>
  when the peer's stream ends first (what was left of it has been consumed).
\<close>

definition read_bytes :: "nat \<Rightarrow> world \<Rightarrow> byte list option \<times> world" where
  "read_bytes totalSize w =
     (if totalSize \<le> length (sock_in w)
      then (Some (take totalSize (sock_in w)), w\<lparr>sock_in := drop totalSize (sock_in w)\<rparr>)
      else (None, w\<lparr>sock_in := []\<rparr>))"

definition send_bytes :: "byte list \<Rightarrow> world \<Rightarrow> world" where
  "send_bytes bs w = w\<lparr>sock_out := sock_out w @ bs\<rparr>"

definition send_output :: "byte \<Rightarrow> byte list \<Rightarrow> uint32 \<Rightarrow> world \<Rightarrow> world" where
  "send_output operation output sz w =
     send_bytes (take (unat sz) output)
       (send_bytes (htole32 sz)
         (send_bytes [operation]
           (send_bytes (htole32 PREFIX) w)))"

definition close_socket :: "world \<Rightarrow> world" where
  "close_socket w = w\<lparr>sock_closed := True\<rparr>"

text \<open>
  The pattern shared by every error path: \<open>send_output(fd, ERROR_OPERATION, msg,
  sizeof(msg) - 1)\<close>, \<open>shutdown\<close>, \<open>close\<close>.
\<close>

definition error_reply :: "string \<Rightarrow> world \<Rightarrow> world" where
  "error_reply msg w =
     close_socket (send_output ERROR_OPERATION (bytes_of msg) (word_of_nat (length msg)) w)"

definition invalid_message :: "world \<Rightarrow> world" where
  "invalid_message w = error_reply ''invalid message'' w"

definition wrong_operation :: "world \<Rightarrow> world" where
  "wrong_operation w = error_reply ''invalid operation type'' w"

definition invalid_image :: "world \<Rightarrow> world" where
  "invalid_image w = error_reply ''invalid image'' w"

definition no_faces :: "world \<Rightarrow> world" where
  "no_faces w = error_reply ''no faces detected in image'' w"

definition send_prefix_file :: "'img opencv \<Rightarrow> world \<Rightarrow> world" where
  "send_prefix_file cv w =
     (let fileSize = (word_of_nat (length (responsefile cv)) :: uint32)
      in send_bytes (take (unat fileSize) (responsefile cv)) w)"

definition bad_request :: "'img opencv \<Rightarrow> world \<Rightarrow> world" where
  "bad_request cv w =
     (let w1 = lock StatsLock w;
          w2 = w1\<lparr>stats := (stats w1)\<lparr>badRequests := badRequests (stats w1) + 1\<rparr>\<rparr>;
          w3 = unlock StatsLock w2
      in close_socket (send_prefix_file cv w3))"

subsection \<open>Request validation\<close>

text \<open>The functions below return the source's flag (\<open>True\<close> for 1) or value, and the new state.\<close>

definition check_image_size :: "uint32 \<Rightarrow> ClientInfo \<Rightarrow> world \<Rightarrow> bool \<times> world" where
  "check_image_size imageSize info w =
     (if imageSize = 0 then (True, error_reply ''image is 0 bytes'' w)
      else if info_maxSize info \<noteq> 0 \<and> imageSize > info_maxSize info
      then (True, error_reply ''image too large'' w)
      else (False, w))"

definition check_prefix :: "'img opencv \<Rightarrow> world \<Rightarrow> bool \<times> world" where
  "check_prefix cv w =
     (case read_bytes 4 w of
        (None, w1) \<Rightarrow> (True, invalid_message w1)
      | (Some prefix, w1) \<Rightarrow>
          if le32toh prefix \<noteq> PREFIX then (True, bad_request cv w1) else (False, w1))"

definition check_operation :: "world \<Rightarrow> byte \<times> world" where
  "check_operation w =
     (case read_bytes 1 w of
        (None, w1) \<Rightarrow> (OPERATION_ERROR, invalid_message w1)
      | (Some operation, w1) \<Rightarrow>
          if hd operation > 1 then (OPERATION_ERROR, wrong_operation w1)
          else (hd operation, w1))"

definition determine_image_size :: "ClientInfo \<Rightarrow> world \<Rightarrow> uint32 \<times> world" where
  "determine_image_size info w =
     (case read_bytes 4 w of
        (None, w1) \<Rightarrow> (0, invalid_message w1)
      | (Some imageOneSizeLittleEndian, w1) \<Rightarrow>
          (let imageOneSize = le32toh imageOneSizeLittleEndian
           in case check_image_size imageOneSize info w1 of
                (True, w2) \<Rightarrow> (0, w2)
              | (False, w2) \<Rightarrow> (imageOneSize, w2)))"

subsection \<open>The image pipeline\<close>

definition cvHaarDetectObjects :: "world \<Rightarrow> world" where
  "cvHaarDetectObjects w = w\<lparr>events := events w @ [DetectorEnter, DetectorExit]\<rparr>"

definition create_frame :: "'img opencv \<Rightarrow> byte list \<Rightarrow> uint32 \<Rightarrow> world \<Rightarrow> 'img option \<times> world" where
  "create_frame cv imageData sz w =
     (let w1 = lock FileLock w
      in case cvLoadImage_color cv (take (unat sz) imageData) of
           None \<Rightarrow> (None, unlock FileLock w1)
         | Some frame \<Rightarrow> (Some frame, unlock FileLock w1))"

text \<open>
  \<open>find_faces\<close>: \<open>storage\<close> tells whether \<open>*storage\<close> is non-\<open>NULL\<close>. The early return
  leaves the cascade mutex locked, as the source does.
\<close>

definition find_faces :: "'img opencv \<Rightarrow> 'img \<Rightarrow> bool \<Rightarrow> world \<Rightarrow> CvRect list option \<times> world" where
  "find_faces cv grey storage w =
     (let w1 = lock CascadeLock w
      in if \<not> storage then (None, w1)
         else (let w2 = cvHaarDetectObjects w1;
                   faces = detect_faces cv grey
               in (Some faces, unlock CascadeLock w2)))"

text \<open>
  C's \<open>a / 2\<close> on \<open>int\<close>, which truncates towards zero. The sums of \<open>draw_faces\<close> are
  \<open>+\<close> on \<open>int32\<close>: an \<open>int\<close> sum that overflows wraps around, which is what the compiled
  server does (the C standard leaves it undefined).
\<close>

definition half :: "int32 \<Rightarrow> int32" where
  "half a = word_of_int (if sint a < 0 then - ((- sint a) div 2) else sint a div 2)"

fun draw_eyes :: "'img opencv \<Rightarrow> CvRect \<Rightarrow> CvRect list \<Rightarrow> 'img \<Rightarrow> 'img" where
  "draw_eyes cv face [] frame = frame"
| "draw_eyes cv (fx, fy, fw, fh) ((ex, ey, ew, eh) # eyes) frame =
     draw_eyes cv (fx, fy, fw, fh) eyes
       (cvCircle cv frame (fx + ex + half ew, fy + ey + half eh) (half (half ew + half eh)))"

fun draw_faces :: "'img opencv \<Rightarrow> 'img \<Rightarrow> CvRect list \<Rightarrow> 'img \<times> world \<Rightarrow> 'img \<times> world" where
  "draw_faces cv frameGrey [] (frame, w) = (frame, w)"
| "draw_faces cv frameGrey (face # faces) (frame, w) =
     (case face of (x, y, width, height) \<Rightarrow>
        (let frame1 = cvEllipse cv frame (x + half width, y + half height)
                        (half width, half height);
             w1 = lock CascadeLock w;
             w2 = cvHaarDetectObjects w1;
             eyes = detect_eyes cv frameGrey face;
             w3 = unlock CascadeLock w2;
             frame2 = (if length eyes = 2 then draw_eyes cv face eyes frame1 else frame1)
         in draw_faces cv frameGrey faces (frame2, w3)))"

text \<open>
  \<open>output_face_detection\<close>: the saved file is read back with its size cast to \<open>uint32_t\<close>,
  and that many bytes are sent in an operation-2 frame.
\<close>

definition output_face_detection :: "'img opencv \<Rightarrow> 'img \<Rightarrow> world \<Rightarrow> world" where
  "output_face_detection cv frame w =
     (let w1 = lock FileLock w;
          file = cvSaveImage cv frame;
          outputSize = (word_of_nat (length file) :: uint32);
          output = take (unat outputSize) file;
          w2 = send_output 2 output outputSize w1
      in unlock FileLock w2)"

text \<open>
  \<open>create_replacement\<close> in two parts: \<open>recv_replacement\<close> is its first half (reading and
  validating the second length and payload, up to the \<open>read_bytes\<close> of the image), the rest
  writes the scratch file and loads it.
\<close>

definition recv_replacement :: "ClientInfo \<Rightarrow> world \<Rightarrow> byte list option \<times> world" where
  "recv_replacement info w =
     (case read_bytes 4 w of
        (None, w1) \<Rightarrow> (None, invalid_message w1)
      | (Some imageTwoSizeLittleEndian, w1) \<Rightarrow>
          (let imageTwoSize = le32toh imageTwoSizeLittleEndian
           in case check_image_size imageTwoSize info w1 of
                (True, w2) \<Rightarrow> (None, w2)
              | (False, w2) \<Rightarrow>
                  (case read_bytes (unat imageTwoSize) w2 of
                     (None, w3) \<Rightarrow> (None, invalid_message w3)
                   | (Some imageData, w3) \<Rightarrow> (Some imageData, w3))))"

definition create_replacement :: "'img opencv \<Rightarrow> ClientInfo \<Rightarrow> world \<Rightarrow> 'img option \<times> world" where
  "create_replacement cv info w =
     (case recv_replacement info w of
        (None, w1) \<Rightarrow> (None, w1)
      | (Some imageData, w1) \<Rightarrow>
          (let w2 = lock FileLock w1
           in case cvLoadImage_unchanged cv imageData of
                None \<Rightarrow> (None, error_reply ''invalid image'' (unlock FileLock w2))
              | Some frame \<Rightarrow> (Some frame, unlock FileLock w2)))"

definition replace_face :: "'img opencv \<Rightarrow> 'img \<Rightarrow> 'img \<Rightarrow> CvRect list \<Rightarrow> world \<Rightarrow> world" where
  "replace_face cv frame replace faces w =
     output_face_detection cv (foldl (\<lambda>f face. replace_pixels cv f replace face) frame faces) w"

definition execute_replacement ::
  "'img opencv \<Rightarrow> ClientInfo \<Rightarrow> 'img \<Rightarrow> CvRect list \<Rightarrow> world \<Rightarrow> bool \<times> world" where
  "execute_replacement cv info frame faces w =
     (case create_replacement cv info w of
        (None, w1) \<Rightarrow> (True, w1)
      | (Some replacement, w1) \<Rightarrow>
          (let w2 = replace_face cv frame replacement faces w1;
               w3 = lock StatsLock w2;
               w4 = w3\<lparr>stats := (stats w3)\<lparr>faceReplacements := faceReplacements (stats w3) + 1\<rparr>\<rparr>
           in (False, unlock StatsLock w4)))"

definition image_executor ::
  "'img opencv \<Rightarrow> ClientInfo \<Rightarrow> byte list \<Rightarrow> uint32 \<Rightarrow> byte \<Rightarrow> world \<Rightarrow> bool \<times> world" where
  "image_executor cv info imageData imageOneSize operation w =
     (case create_frame cv imageData imageOneSize w of
        (None, w1) \<Rightarrow> (True, invalid_image w1)
      | (Some frame, w1) \<Rightarrow>
          (let grey = grey_image cv frame;
               storage = cvCreateMemStorage cv frame
           in case find_faces cv grey storage w1 of
                (None, w2) \<Rightarrow> (True, no_faces w2)
              | (Some faces, w2) \<Rightarrow>
                  if faces = [] then (True, no_faces w2)
                  else if operation = 0 then
                    (case draw_faces cv grey faces (frame, w2) of
                       (frame', w3) \<Rightarrow>
                         (let w4 = output_face_detection cv frame' w3;
                              w5 = lock StatsLock w4;
                              w6 = w5\<lparr>stats := (stats w5)\<lparr>faceDetections :=
                                                     faceDetections (stats w5) + 1\<rparr>\<rparr>
                          in (False, unlock StatsLock w6)))
                  else execute_replacement cv info frame faces w2))"

subsection \<open>The worker thread\<close>

text \<open>
  One iteration of the loop of \<open>task_executor\<close>: the flag tells whether the loop goes on
  (\<open>False\<close> is a \<open>break\<close>).
\<close>

definition serve_request :: "'img opencv \<Rightarrow> ClientInfo \<Rightarrow> world \<Rightarrow> bool \<times> world" where
  "serve_request cv info w =
     (case check_prefix cv w of
        (True, w1) \<Rightarrow> (False, w1)
      | (False, w1) \<Rightarrow>
          (case check_operation w1 of
             (operation, w2) \<Rightarrow>
               if operation = OPERATION_ERROR then (False, w2)
               else
                 (case determine_image_size info w2 of
                    (imageOneSize, w3) \<Rightarrow>
                      if 0 = imageOneSize then (False, w3)
                      else
                        (case read_bytes (unat imageOneSize) w3 of
                           (None, w4) \<Rightarrow> (False, invalid_message w4)
                         | (Some imageData, w4) \<Rightarrow>
                             (case image_executor cv info imageData imageOneSize operation w4 of
                                (True, w5) \<Rightarrow> (False, w5)
                              | (False, w5) \<Rightarrow> (True, w5))))))"

definition stats_client_exit :: "Statistics \<Rightarrow> Statistics" where
  "stats_client_exit s = s\<lparr>currClients := currClients s - 1, prevClients := prevClients s + 1\<rparr>"

definition update_client_stats :: "world \<Rightarrow> world" where
  "update_client_stats w =
     (let w1 = lock StatsLock w;
          w2 = w1\<lparr>stats := stats_client_exit (stats w1)\<rparr>
      in unlock StatsLock w2)"

definition sem_post :: "world \<Rightarrow> world" where
  "sem_post w = w\<lparr>sem_posts := sem_posts w + 1\<rparr>"

text \<open>
  The \<open>while (1)\<close> loop of \<open>task_executor\<close>. Every iteration that does not break has read
  a four-byte prefix, so the loop ends on every finite input stream.
\<close>

function task_loop :: "'img opencv \<Rightarrow> ClientInfo \<Rightarrow> world \<Rightarrow> world" where
  "task_loop cv info w =
     (if fst (serve_request cv info w) then task_loop cv info (snd (serve_request cv info w))
      else snd (serve_request cv info w))"
  by pat_completeness auto
termination
proof (relation "measure (\<lambda>(cv, info, w). length (sock_in w))")
  show "wf (measure (\<lambda>(cv :: 'img opencv, info :: ClientInfo, w). length (sock_in w)))"
    by simp
next
  fix cv :: "'img opencv" and info :: ClientInfo and w :: world
  assume go: "fst (serve_request cv info w)"
  have basic [simp]: "\<And>m v. sock_in (lock m v) = sock_in v"
    "\<And>m v. sock_in (unlock m v) = sock_in v"
    "\<And>bs v. sock_in (send_bytes bs v) = sock_in v"
    "\<And>v. sock_in (close_socket v) = sock_in v"
    "\<And>v. sock_in (cvHaarDetectObjects v) = sock_in v"
    by (simp_all add: lock_def unlock_def send_bytes_def close_socket_def
        cvHaarDetectObjects_def)
  have reply [simp]: "\<And>msg v. sock_in (error_reply msg v) = sock_in v"
    "\<And>op out sz v. sock_in (send_output op out sz v) = sock_in v"
    by (simp_all add: send_output_def error_reply_def)
  have paths [simp]: "\<And>v. sock_in (invalid_message v) = sock_in v"
    "\<And>v. sock_in (wrong_operation v) = sock_in v"
    "\<And>v. sock_in (invalid_image v) = sock_in v"
    "\<And>v. sock_in (no_faces v) = sock_in v"
    "\<And>v. sock_in (bad_request cv v) = sock_in v"
    "\<And>frame v. sock_in (output_face_detection cv frame v) = sock_in v"
    by (simp_all add: invalid_message_def wrong_operation_def invalid_image_def no_faces_def
        bad_request_def send_prefix_file_def output_face_detection_def Let_def)
  have read_le: "\<And>n v r v'. read_bytes n v = (r, v') \<Longrightarrow> length (sock_in v') \<le> length (sock_in v)"
    by (auto simp: read_bytes_def split: if_splits)
  have read_some: "\<And>n v bs v'. read_bytes n v = (Some bs, v')
      \<Longrightarrow> length (sock_in v') + n = length (sock_in v)"
    by (auto simp: read_bytes_def split: if_splits)
  have draw: "\<And>g faces frame v frame' v'. draw_faces cv g faces (frame, v) = (frame', v')
      \<Longrightarrow> sock_in v' = sock_in v"
  proof -
    fix g faces frame v frame' v'
    show "draw_faces cv g faces (frame, v) = (frame', v') \<Longrightarrow> sock_in v' = sock_in v"
      by (induction faces arbitrary: frame v) (auto simp add: Let_def split: prod.splits)
  qed
  have cis: "\<And>n v r v'. check_image_size n info v = (r, v') \<Longrightarrow> sock_in v' = sock_in v"
    by (auto simp add: check_image_size_def split: if_splits)
  have recv: "\<And>v r v'. recv_replacement info v = (r, v')
      \<Longrightarrow> length (sock_in v') \<le> length (sock_in v)"
    by (fastforce simp: recv_replacement_def Let_def
        split: prod.splits option.splits bool.splits dest!: read_le cis)
  have crep: "\<And>v r v'. create_replacement cv info v = (r, v')
      \<Longrightarrow> length (sock_in v') \<le> length (sock_in v)"
    by (fastforce simp: create_replacement_def Let_def split: prod.splits option.splits
        dest!: recv)
  have exec: "\<And>frame faces v r v'. execute_replacement cv info frame faces v = (r, v')
      \<Longrightarrow> length (sock_in v') \<le> length (sock_in v)"
    by (fastforce simp: execute_replacement_def replace_face_def Let_def
        split: prod.splits option.splits dest!: crep)
  have ff: "\<And>grey st v r v'. find_faces cv grey st v = (r, v') \<Longrightarrow> sock_in v' = sock_in v"
    by (auto simp: find_faces_def Let_def split: if_splits)
  have cf: "\<And>im sz v r v'. create_frame cv im sz v = (r, v') \<Longrightarrow> sock_in v' = sock_in v"
    by (auto simp: create_frame_def Let_def split: option.splits)
  have imex: "\<And>im sz op v r v'. image_executor cv info im sz op v = (r, v')
      \<Longrightarrow> length (sock_in v') \<le> length (sock_in v)"
    by (fastforce simp: image_executor_def Let_def split: prod.splits option.splits if_splits
        dest!: exec ff cf draw)
  have cp: "\<And>v v'. check_prefix cv v = (False, v')
      \<Longrightarrow> length (sock_in v') + 4 = length (sock_in v)"
    by (auto simp: check_prefix_def split: prod.splits option.splits if_splits
        dest!: read_some)
  have co: "\<And>v r v'. check_operation v = (r, v') \<Longrightarrow> length (sock_in v') \<le> length (sock_in v)"
    by (auto simp: check_operation_def split: prod.splits option.splits if_splits
        dest!: read_le)
  have dis: "\<And>v r v'. determine_image_size info v = (r, v')
      \<Longrightarrow> length (sock_in v') \<le> length (sock_in v)"
    by (fastforce simp: determine_image_size_def Let_def
        split: prod.splits option.splits bool.splits dest!: read_le cis)
  have serve: "\<And>v'. serve_request cv info w = (True, v')
      \<Longrightarrow> length (sock_in v') < length (sock_in w)"
    by (fastforce simp: serve_request_def
        split: prod.splits option.splits bool.splits if_splits
        dest!: cp co dis imex read_le)
  from go have "serve_request cv info w = (True, snd (serve_request cv info w))"
    by (cases "serve_request cv info w") simp
  from serve [OF this]
  show "((cv, info, snd (serve_request cv info w)), (cv, info, w))
        \<in> measure (\<lambda>(cv, info, w). length (sock_in w))"
    by simp
qed

declare task_loop.simps [simp del]

text \<open>
  \<open>task_executor\<close>: the loop, then the exit path of the thread (\<open>sem_post\<close> when an
  admission semaphore exists, \<open>update_client_stats\<close>).
\<close>

definition task_executor :: "'img opencv \<Rightarrow> ClientInfo \<Rightarrow> world \<Rightarrow> world" where
  "task_executor cv info w =
     (let w1 = task_loop cv info w;
          w2 = (if info_limitConnections info then sem_post w1 else w1)
      in update_client_stats w2)"

text \<open>
  What \<open>main\<close> and \<open>new_connection\<close> put into the \<open>ClientInfo\<close> of every worker: the
  parsed \<open>maxSize\<close>, and a semaphore exactly when \<open>connectionLimit\<close> is not 0.
\<close>

definition new_client_info :: "CmdLineParams \<Rightarrow> ClientInfo" where
  "new_client_info params =
     \<lparr>info_maxSize = maxSize params, info_limitConnections = (connectionLimit params \<noteq> 0)\<rparr>"

subsection \<open>The acceptor, the workers and the reporter as a step relation\<close>

text \<open>
  The threads of the server that touch the shared \<open>Statistics\<close>, statement by statement:
  the acceptor (the loop of \<open>new_connection\<close>), the workers (\<open>task_executor\<close>) and the
  reporter (\<open>sighup_listener\<close>). A program counter names the statement the thread executes
  next.
\<close>

datatype thread = Acceptor | Reporter | Worker nat

datatype counter = FaceDetections | FaceReplacements | BadRequests

text \<open>
  \<open>new_connection\<close>: \<open>sem_wait\<close> when there is an admission semaphore, \<open>accept\<close>,
  \<open>pthread_mutex_lock\<close>, \<open>currClients++\<close>, \<open>pthread_mutex_unlock\<close>, \<open>pthread_create\<close>.
\<close>

datatype acceptor_pc = A_sem_wait | A_accept | A_lock | A_incr | A_unlock | A_create

text \<open>
  \<open>task_executor\<close>: in the loop and outside \<open>statsLock\<close> (\<open>W_loop\<close>); inside the critical
  section of \<open>bad_request\<close>, \<open>image_executor\<close> or \<open>execute_replacement\<close>, before and after
  the increment of that request counter; after the loop, at \<open>sem_post\<close>; at the four
  statements of \<open>update_client_stats\<close>; returned.
\<close>

datatype worker_pc = W_loop | W_count counter | W_count_unlock counter | W_sem_post
  | W_exit_lock | W_exit_decr | W_exit_incr | W_exit_unlock | W_done

text \<open>\<open>sighup_listener\<close>: \<open>sigwait\<close>, \<open>pthread_mutex_lock\<close>, the printing, \<open>pthread_mutex_unlock\<close>.\<close>

datatype reporter_pc = R_sigwait | R_lock | R_print | R_unlock

text \<open>
  \<open>stats_owner\<close> is the thread that has locked \<open>statsLock\<close>, \<open>sem\<close> the value of the
  admission semaphore, \<open>workers\<close> the worker threads in the order of their creation.
  \<open>accepted\<close> and \<open>failed\<close> are not variables of the program: they count the calls of
  \<open>accept\<close> that have returned a connection and those that have returned \<open>-1\<close>.
\<close>

record server =
  srv_stats :: Statistics
  stats_owner :: "thread option"
  sem :: nat
  acc_pc :: acceptor_pc
  rep_pc :: reporter_pc
  workers :: "worker_pc list"
  accepted :: nat
  failed :: nat

definition stats_accept :: "Statistics \<Rightarrow> Statistics" where
  "stats_accept s = s\<lparr>currClients := currClients s + 1\<rparr>"

definition stats_count :: "counter \<Rightarrow> Statistics \<Rightarrow> Statistics" where
  "stats_count c s =
     (case c of
        FaceDetections \<Rightarrow> s\<lparr>faceDetections := faceDetections s + 1\<rparr>
      | FaceReplacements \<Rightarrow> s\<lparr>faceReplacements := faceReplacements s + 1\<rparr>
      | BadRequests \<Rightarrow> s\<lparr>badRequests := badRequests s + 1\<rparr>)"

text \<open>
  The server when \<open>main\<close> calls \<open>new_connection\<close>; \<open>limit\<close> is the parsed
  \<open>connectionLimit\<close>, and there is a semaphore exactly when it is not 0.
\<close>

definition server_init :: "nat \<Rightarrow> server" where
  "server_init limit =
     \<lparr>srv_stats = \<lparr>currClients = 0, prevClients = 0, faceDetections = 0,
                   faceReplacements = 0, badRequests = 0\<rparr>,
      stats_owner = None, sem = limit, acc_pc = A_sem_wait, rep_pc = R_sigwait,
      workers = [], accepted = 0, failed = 0\<rparr>"

text \<open>
  One statement of one thread. \<open>pthread_mutex_lock\<close> returns only when the mutex is free
  and \<open>sem_wait\<close> only when the semaphore is positive. The result of \<open>accept\<close> is not
  tested by \<open>new_connection\<close>, nor is that of \<open>pthread_create\<close>: after a failed \<open>accept\<close>
  the acceptor goes on as after a connection, and the worker it creates finds no bytes to
  read and leaves its loop. A worker leaves its loop after \<open>bad_request\<close> and whenever a
  request fails or the peer's stream ends.
\<close>

inductive server_step :: "nat \<Rightarrow> thread \<Rightarrow> server \<Rightarrow> server \<Rightarrow> bool" for limit :: nat where
  acceptor_sem_wait:
    "acc_pc s = A_sem_wait \<Longrightarrow> limit \<noteq> 0 \<Longrightarrow> 0 < sem s \<Longrightarrow>
     server_step limit Acceptor s (s\<lparr>sem := sem s - 1, acc_pc := A_accept\<rparr>)"
| acceptor_no_semaphore:
    "acc_pc s = A_sem_wait \<Longrightarrow> limit = 0 \<Longrightarrow>
     server_step limit Acceptor s (s\<lparr>acc_pc := A_accept\<rparr>)"
| accept_connection:
    "acc_pc s = A_accept \<Longrightarrow>
     server_step limit Acceptor s (s\<lparr>acc_pc := A_lock, accepted := Suc (accepted s)\<rparr>)"
| accept_fails:
    "acc_pc s = A_accept \<Longrightarrow>
     server_step limit Acceptor s (s\<lparr>acc_pc := A_lock, failed := Suc (failed s)\<rparr>)"
| acceptor_lock:
    "acc_pc s = A_lock \<Longrightarrow> stats_owner s = None \<Longrightarrow>
     server_step limit Acceptor s (s\<lparr>stats_owner := Some Acceptor, acc_pc := A_incr\<rparr>)"
| acceptor_count:
    "acc_pc s = A_incr \<Longrightarrow>
     server_step limit Acceptor s
       (s\<lparr>srv_stats := stats_accept (srv_stats s), acc_pc := A_unlock\<rparr>)"
| acceptor_unlock:
    "acc_pc s = A_unlock \<Longrightarrow>
     server_step limit Acceptor s (s\<lparr>stats_owner := None, acc_pc := A_create\<rparr>)"
| worker_created:
    "acc_pc s = A_create \<Longrightarrow>
     server_step limit Acceptor s (s\<lparr>acc_pc := A_sem_wait, workers := workers s @ [W_loop]\<rparr>)"
| worker_not_created:
    "acc_pc s = A_create \<Longrightarrow>
     server_step limit Acceptor s (s\<lparr>acc_pc := A_sem_wait\<rparr>)"
| worker_count_lock:
    "i < length (workers s) \<Longrightarrow> workers s ! i = W_loop \<Longrightarrow> stats_owner s = None \<Longrightarrow>
     server_step limit (Worker i) s
       (s\<lparr>stats_owner := Some (Worker i), workers := (workers s)[i := W_count c]\<rparr>)"
| worker_count:
    "i < length (workers s) \<Longrightarrow> workers s ! i = W_count c \<Longrightarrow>
     server_step limit (Worker i) s
       (s\<lparr>srv_stats := stats_count c (srv_stats s),
          workers := (workers s)[i := W_count_unlock c]\<rparr>)"
| worker_count_unlock:
    "i < length (workers s) \<Longrightarrow> workers s ! i = W_count_unlock c \<Longrightarrow>
     server_step limit (Worker i) s
       (s\<lparr>stats_owner := None,
          workers := (workers s)[i := (if c = BadRequests then W_sem_post else W_loop)]\<rparr>)"
| worker_break:
    "i < length (workers s) \<Longrightarrow> workers s ! i = W_loop \<Longrightarrow>
     server_step limit (Worker i) s (s\<lparr>workers := (workers s)[i := W_sem_post]\<rparr>)"
| worker_sem_post:
    "i < length (workers s) \<Longrightarrow> workers s ! i = W_sem_post \<Longrightarrow>
     server_step limit (Worker i) s
       (s\<lparr>sem := (if limit \<noteq> 0 then sem s + 1 else sem s),
          workers := (workers s)[i := W_exit_lock]\<rparr>)"
| worker_exit_lock:
    "i < length (workers s) \<Longrightarrow> workers s ! i = W_exit_lock \<Longrightarrow> stats_owner s = None \<Longrightarrow>
     server_step limit (Worker i) s
       (s\<lparr>stats_owner := Some (Worker i), workers := (workers s)[i := W_exit_decr]\<rparr>)"
| worker_exit_decr:
    "i < length (workers s) \<Longrightarrow> workers s ! i = W_exit_decr \<Longrightarrow>
     server_step limit (Worker i) s
       (s\<lparr>srv_stats := (srv_stats s)\<lparr>currClients := currClients (srv_stats s) - 1\<rparr>,
          workers := (workers s)[i := W_exit_incr]\<rparr>)"
| worker_exit_incr:
    "i < length (workers s) \<Longrightarrow> workers s ! i = W_exit_incr \<Longrightarrow>
     server_step limit (Worker i) s
       (s\<lparr>srv_stats := (srv_stats s)\<lparr>prevClients := prevClients (srv_stats s) + 1\<rparr>,
          workers := (workers s)[i := W_exit_unlock]\<rparr>)"
| worker_exit_unlock:
    "i < length (workers s) \<Longrightarrow> workers s ! i = W_exit_unlock \<Longrightarrow>
     server_step limit (Worker i) s
       (s\<lparr>stats_owner := None, workers := (workers s)[i := W_done]\<rparr>)"
| reporter_signal:
    "rep_pc s = R_sigwait \<Longrightarrow> server_step limit Reporter s (s\<lparr>rep_pc := R_lock\<rparr>)"
| reporter_lock:
    "rep_pc s = R_lock \<Longrightarrow> stats_owner s = None \<Longrightarrow>
     server_step limit Reporter s (s\<lparr>stats_owner := Some Reporter, rep_pc := R_print\<rparr>)"
| reporter_print:
    "rep_pc s = R_print \<Longrightarrow> server_step limit Reporter s (s\<lparr>rep_pc := R_unlock\<rparr>)"
| reporter_unlock:
    "rep_pc s = R_unlock \<Longrightarrow>
     server_step limit Reporter s (s\<lparr>stats_owner := None, rep_pc := R_sigwait\<rparr>)"

inductive reachable :: "nat \<Rightarrow> server \<Rightarrow> bool" for limit :: nat where
  start: "reachable limit (server_init limit)"
| step: "reachable limit s \<Longrightarrow> server_step limit t s s' \<Longrightarrow> reachable limit s'"

text \<open>
  What the counters of clients count. A return of \<open>accept\<close> is \<open>uncounted\<close> while the
  acceptor stands between \<open>accept\<close> and its \<open>currClients++\<close>; \<open>counted\<close> are the returns of
  \<open>accept\<close> for which \<open>currClients++\<close> was executed, \<open>decremented\<close> the workers that have
  executed \<open>currClients--\<close>, \<open>completed\<close> those that have executed \<open>prevClients++\<close>.
\<close>

definition uncounted :: "server \<Rightarrow> nat" where
  "uncounted s = (if acc_pc s = A_lock \<or> acc_pc s = A_incr then 1 else 0)"

definition counted :: "server \<Rightarrow> nat" where
  "counted s = accepted s + failed s - uncounted s"

fun past_decrement :: "worker_pc \<Rightarrow> bool" where
  "past_decrement W_exit_incr = True"
| "past_decrement W_exit_unlock = True"
| "past_decrement W_done = True"
| "past_decrement p = False"

fun past_increment :: "worker_pc \<Rightarrow> bool" where
  "past_increment W_exit_unlock = True"
| "past_increment W_done = True"
| "past_increment p = False"

definition decremented :: "server \<Rightarrow> nat" where
  "decremented s = length (filter past_decrement (workers s))"

definition completed :: "server \<Rightarrow> nat" where
  "completed s = length (filter past_increment (workers s))"

text \<open>The statements between a lock and the unlock of \<open>statsLock\<close>.\<close>

fun acceptor_critical :: "acceptor_pc \<Rightarrow> bool" where
  "acceptor_critical A_incr = True"
| "acceptor_critical A_unlock = True"
| "acceptor_critical p = False"

fun worker_critical :: "worker_pc \<Rightarrow> bool" where
  "worker_critical (W_count c) = True"
| "worker_critical (W_count_unlock c) = True"
| "worker_critical W_exit_decr = True"
| "worker_critical W_exit_incr = True"
| "worker_critical W_exit_unlock = True"
| "worker_critical p = False"

fun reporter_critical :: "reporter_pc \<Rightarrow> bool" where
  "reporter_critical R_print = True"
| "reporter_critical R_unlock = True"
| "reporter_critical p = False"

text \<open>The thread that stands inside a critical section is the owner of \<open>statsLock\<close>.\<close>

definition holder_ok :: "server \<Rightarrow> bool" where
  "holder_ok s =
     ((acceptor_critical (acc_pc s) \<longrightarrow> stats_owner s = Some Acceptor)
      \<and> (reporter_critical (rep_pc s) \<longrightarrow> stats_owner s = Some Reporter)
      \<and> (\<forall>i < length (workers s).
            worker_critical (workers s ! i) \<longrightarrow> stats_owner s = Some (Worker i)))"

text \<open>
  How the counters of clients follow the program counters: every return of \<open>accept\<close> is
  counted once the acceptor has passed \<open>currClients++\<close>, and never before its worker exists.
\<close>

definition counts_ok :: "server \<Rightarrow> bool" where
  "counts_ok s =
     (uncounted s \<le> accepted s + failed s
      \<and> length (workers s) + (if acc_pc s = A_unlock \<or> acc_pc s = A_create then 1 else 0)
          \<le> counted s
      \<and> currClients (srv_stats s) = word_of_nat (counted s - decremented s)
      \<and> prevClients (srv_stats s) = word_of_nat (completed s))"

section \<open>The client (uqfaceclient.c)\<close>

subsection \<open>Constants\<close>

text \<open>
  The client's macros; where a name is also a macro of the server with another value, the
  client's carries the prefix \<open>CLIENT\<close>.
\<close>

definition CLIENT_COMMAND_LINE_ERROR :: nat where "CLIENT_COMMAND_LINE_ERROR = 16"
definition INPUT_FILE_ERROR :: nat where "INPUT_FILE_ERROR = 13"
definition OUTPUT_FILE_ERROR :: nat where "OUTPUT_FILE_ERROR = 5"
definition CLIENT_PORT_ERROR :: nat where "CLIENT_PORT_ERROR = 19"
definition COMMUNICATION_ERROR :: nat where "COMMUNICATION_ERROR = 9"
definition ERROR_MESSAGE :: nat where "ERROR_MESSAGE = 11"
definition ONE_BYTE :: nat where "ONE_BYTE = 8"
definition TWO_BYTES :: nat where "TWO_BYTES = 16"
definition THREE_BYTES :: nat where "THREE_BYTES = 24"
definition PREFIX_ONE :: byte where "PREFIX_ONE = 0x23"
definition PREFIX_TWO :: byte where "PREFIX_TWO = 0x10"
definition PREFIX_THREE :: byte where "PREFIX_THREE = 0x72"
definition PREFIX_FOUR :: byte where "PREFIX_FOUR = 0x31"
definition PREIMAGE_SIZE :: nat where "PREIMAGE_SIZE = 9"
definition MASK :: uint32 where "MASK = 0xFF"
definition INT_MAX :: int where "INT_MAX = 2147483647"

subsection \<open>Command line\<close>

text \<open>The client's \<open>CmdLineParams\<close>.\<close>

record ClientParams =
  client_portnum :: string
  detectFileGiven :: bool
  detectFile :: string
  replaceFileGiven :: bool
  replaceFile :: string
  outputFileNameGiven :: bool
  outputFileName :: string

text \<open>
  The \<open>for\<close> loop of the client's \<open>parse_command_line\<close> over \<open>argv[2..]\<close>: an option
  needs a following argument (\<open>i + 1 < argc\<close>) that is not empty, and may come once.
\<close>

fun parse_options :: "string list \<Rightarrow> ClientParams \<Rightarrow> nat + ClientParams" where
  "parse_options [] params = Inr params"
| "parse_options [a] params = Inl CLIENT_COMMAND_LINE_ERROR"
| "parse_options (a # v # rest) params =
     (if a = ''--replacefile'' \<and> \<not> replaceFileGiven params \<and> v \<noteq> []
      then parse_options rest (params\<lparr>replaceFileGiven := True, replaceFile := v\<rparr>)
      else if a = ''--outputfilename'' \<and> \<not> outputFileNameGiven params \<and> v \<noteq> []
      then parse_options rest (params\<lparr>outputFileNameGiven := True, outputFileName := v\<rparr>)
      else if a = ''--detectfile'' \<and> \<not> detectFileGiven params \<and> v \<noteq> []
      then parse_options rest (params\<lparr>detectFileGiven := True, detectFile := v\<rparr>)
      else Inl CLIENT_COMMAND_LINE_ERROR)"

definition client_parse_command_line :: "string list \<Rightarrow> nat + ClientParams" where
  "client_parse_command_line argv =
     (if length argv < 2 then Inl CLIENT_COMMAND_LINE_ERROR
      else if argv ! 1 = [] then Inl CLIENT_COMMAND_LINE_ERROR
      else parse_options (drop 2 argv)
             \<lparr>client_portnum = argv ! 1, detectFileGiven = False, detectFile = [],
              replaceFileGiven = False, replaceFile = [],
              outputFileNameGiven = False, outputFileName = []\<rparr>)"

subsection \<open>Building the request\<close>

text \<open>
  \<open>create_request\<close> writes into a buffer that \<open>malloc\<close> returned: its initial contents
  \<open>junk\<close> are arbitrary. \<open>memcpy buf off src\<close> overwrites \<open>buf\<close> from offset \<open>off\<close>
  (the callers stay inside the buffer).
\<close>

definition malloc :: "(nat \<Rightarrow> byte) \<Rightarrow> nat \<Rightarrow> byte list" where
  "malloc junk n = map junk [0..<n]"

definition memcpy :: "byte list \<Rightarrow> nat \<Rightarrow> byte list \<Rightarrow> byte list" where
  "memcpy buf off src = take off buf @ src @ drop (off + length src) buf"

datatype fault = OutOfBounds | SignedOverflow

text \<open>
  The length bytes are cut from \<open>uint32_t length = imageOne.length\<close>, which keeps the low 32
  bits of the \<open>size_t\<close>. With a replace file, \<open>int index = PREIMAGE_SIZE + imageOne.length\<close>
  keeps the low 32 bits as a signed value (the conversion gcc implements): a negative index
  writes in front of the buffer, and \<open>index++\<close> beyond \<open>INT_MAX\<close> overflows; both are
  undefined behaviour and end the model with a \<open>fault\<close>. Buffers are in memory, so the
  \<open>size_t\<close> sum of the lengths does not wrap.
\<close>

definition create_request ::
  "(nat \<Rightarrow> byte) \<Rightarrow> byte list \<Rightarrow> byte list \<Rightarrow> bool \<Rightarrow> fault + byte list" where
  "create_request junk imageOne imageTwo replaceGiven =
     (let sz = PREIMAGE_SIZE + length imageOne
               + (if replaceGiven then 4 + length imageTwo else 0);
          buffer = malloc junk sz;
          buffer = buffer[0 := PREFIX_FOUR, 1 := PREFIX_THREE, 2 := PREFIX_TWO, 3 := PREFIX_ONE];
          buffer = buffer[4 := (if replaceGiven then 1 else 0)];
          len = (word_of_nat (length imageOne) :: uint32);
          buffer = buffer[5 := ucast (len AND MASK),
                          6 := ucast (drop_bit ONE_BYTE len AND MASK),
                          7 := ucast (drop_bit TWO_BYTES len AND MASK),
                          8 := ucast (drop_bit THREE_BYTES len AND MASK)];
          buffer = memcpy buffer PREIMAGE_SIZE imageOne
      in if replaceGiven then
           (let len2 = (word_of_nat (length imageTwo) :: uint32);
                index = sint (word_of_nat (PREIMAGE_SIZE + length imageOne) :: 32 word)
            in if index < 0 then Inl OutOfBounds
               else if index + 4 > INT_MAX then Inl SignedOverflow
               else
                 (let i = nat index;
                      buffer = buffer[i := ucast (len2 AND MASK),
                                      i + 1 := ucast (drop_bit ONE_BYTE len2 AND MASK),
                                      i + 2 := ucast (drop_bit TWO_BYTES len2 AND MASK),
                                      i + 3 := ucast (drop_bit THREE_BYTES len2 AND MASK)];
                      buffer = memcpy buffer (i + 4) imageTwo
                  in Inr buffer))
         else Inr buffer)"

subsection \<open>Files, the connection and \<open>main\<close>\<close>

datatype syscall = OpenRead string | OpenWrite string | Connect string | Send "byte list"

datatype outcome = Exit nat | Crash

text \<open>
  What the client sees and changes: the regular files by name; which names \<open>fopen\<close> can open
  for reading (an existing file with permission) and for writing (a file that can be created
  or truncated); standard input; the ports on which \<open>connect\<close> succeeds; whether \<open>send\<close>
  fails; the bytes the server sends until it closes the connection; the contents of fresh
  memory; standard output; and the history of system calls. The texts printed on stderr are
  left out.
\<close>

record client_world =
  files :: "string \<Rightarrow> byte list option"
  readable :: "string \<Rightarrow> bool"
  writable :: "string \<Rightarrow> bool"
  stdin :: "byte list"
  listening :: "string \<Rightarrow> bool"
  send_fails :: bool
  reply :: "byte list"
  heap :: "nat \<Rightarrow> byte"
  stdout :: "byte list"
  syscalls :: "syscall list"

definition fopen_r :: "string \<Rightarrow> client_world \<Rightarrow> bool \<times> client_world" where
  "fopen_r name w =
     (files w name \<noteq> None \<and> readable w name, w\<lparr>syscalls := syscalls w @ [OpenRead name]\<rparr>)"

text \<open>\<open>fopen(name, "w")\<close>: on success the file exists and is empty.\<close>

definition fopen_w :: "string \<Rightarrow> client_world \<Rightarrow> bool \<times> client_world" where
  "fopen_w name w =
     (if writable w name
      then (True, w\<lparr>files := (files w)(name \<mapsto> []), syscalls := syscalls w @ [OpenWrite name]\<rparr>)
      else (False, w\<lparr>syscalls := syscalls w @ [OpenWrite name]\<rparr>))"

text \<open>\<open>check_files\<close>: \<open>Some c\<close> is \<open>exit(c)\<close> after the error message.\<close>

definition check_files :: "ClientParams \<Rightarrow> client_world \<Rightarrow> nat option \<times> client_world" where
  "check_files params w =
     (case (if detectFileGiven params then fopen_r (detectFile params) w else (True, w)) of
        (False, w1) \<Rightarrow> (Some INPUT_FILE_ERROR, w1)
      | (True, w1) \<Rightarrow>
          (case (if replaceFileGiven params then fopen_r (replaceFile params) w1
                 else (True, w1)) of
             (False, w2) \<Rightarrow> (Some INPUT_FILE_ERROR, w2)
           | (True, w2) \<Rightarrow>
               (case (if outputFileNameGiven params then fopen_w (outputFileName params) w2
                      else (True, w2)) of
                  (False, w3) \<Rightarrow> (Some OUTPUT_FILE_ERROR, w3)
                | (True, w3) \<Rightarrow> (None, w3))))"

definition client_check_port :: "string \<Rightarrow> client_world \<Rightarrow> bool \<times> client_world" where
  "client_check_port port w = (listening w port, w\<lparr>syscalls := syscalls w @ [Connect port]\<rparr>)"

text \<open>
  \<open>fopen(name, "r")\<close> followed by \<open>create_image_buffer\<close>, which reads the stream to its end;
  \<open>None\<close> when \<open>fopen\<close> returns \<open>NULL\<close>, which \<open>main\<close> does not test.
\<close>

definition read_image_file :: "string \<Rightarrow> client_world \<Rightarrow> byte list option \<times> client_world" where
  "read_image_file name w =
     (case fopen_r name w of
        (False, w1) \<Rightarrow> (None, w1)
      | (True, w1) \<Rightarrow> (files w1 name, w1))"

definition send_without_signals :: "byte list \<Rightarrow> client_world \<Rightarrow> bool \<times> client_world" where
  "send_without_signals bs w = (\<not> send_fails w, w\<lparr>syscalls := syscalls w @ [Send bs]\<rparr>)"

definition client_read_bytes :: "nat \<Rightarrow> client_world \<Rightarrow> byte list option \<times> client_world" where
  "client_read_bytes n w =
     (if n \<le> length (reply w)
      then (Some (take n (reply w)), w\<lparr>reply := drop n (reply w)\<rparr>)
      else (None, w\<lparr>reply := []\<rparr>))"

text \<open>
  \<open>recieve_response\<close>. The client compares and uses the received integers in host byte
  order; the model is the little-endian host on which the server's \<open>le32toh\<close> is the
  identity. For operation 2 with an output file, \<open>open\<close> is not tested: a failure makes
  \<open>fwrite\<close> run on a \<open>NULL\<close> stream.
\<close>

definition recieve_response :: "ClientParams \<Rightarrow> client_world \<Rightarrow> outcome \<times> client_world" where
  "recieve_response params w =
     (case client_read_bytes 4 w of
        (None, w1) \<Rightarrow> (Exit COMMUNICATION_ERROR, w1)
      | (Some prefix, w1) \<Rightarrow>
          if le32toh prefix \<noteq> PREFIX then (Exit COMMUNICATION_ERROR, w1)
          else
            (case client_read_bytes 1 w1 of
               (None, w2) \<Rightarrow> (Exit COMMUNICATION_ERROR, w2)
             | (Some operation, w2) \<Rightarrow>
                 (case client_read_bytes 4 w2 of
                    (None, w3) \<Rightarrow> (Exit COMMUNICATION_ERROR, w3)
                  | (Some imageSize, w3) \<Rightarrow>
                      (case client_read_bytes (unat (le32toh imageSize)) w3 of
                         (None, w4) \<Rightarrow> (Exit COMMUNICATION_ERROR, w4)
                       | (Some imageData, w4) \<Rightarrow>
                           if hd operation = 2 then
                             (if outputFileNameGiven params then
                                (if writable w4 (outputFileName params)
                                 then (Exit 0, w4\<lparr>files := (files w4)
                                                   (outputFileName params \<mapsto> imageData)\<rparr>)
                                 else (Crash, w4))
                              else (Exit 0, w4\<lparr>stdout := stdout w4 @ imageData\<rparr>))
                           else if hd operation = 3 then (Exit ERROR_MESSAGE, w4)
                           else (Exit COMMUNICATION_ERROR, w4)))))"

definition client_main :: "string list \<Rightarrow> client_world \<Rightarrow> outcome \<times> client_world" where
  "client_main argv w =
     (case client_parse_command_line argv of
        Inl c \<Rightarrow> (Exit c, w)
      | Inr params \<Rightarrow>
          (case check_files params w of
             (Some c, w1) \<Rightarrow> (Exit c, w1)
           | (None, w1) \<Rightarrow>
               (case client_check_port (client_portnum params) w1 of
                  (False, w2) \<Rightarrow> (Exit CLIENT_PORT_ERROR, w2)
                | (True, w2) \<Rightarrow>
                    (case (if detectFileGiven params then read_image_file (detectFile params) w2
                           else (Some (stdin w2), w2)) of
                       (None, w3) \<Rightarrow> (Crash, w3)
                     | (Some imageOne, w3) \<Rightarrow>
                         (case (if replaceFileGiven params
                                then read_image_file (replaceFile params) w3
                                else (Some [], w3)) of
                            (None, w4) \<Rightarrow> (Crash, w4)
                          | (Some imageTwo, w4) \<Rightarrow>
                              (case create_request (heap w4) imageOne imageTwo
                                      (replaceFileGiven params) of
                                 Inl f \<Rightarrow> (Crash, w4)
                               | Inr request \<Rightarrow>
                                   (case send_without_signals request w4 of
                                      (False, w5) \<Rightarrow> (Exit COMMUNICATION_ERROR, w5)
                                    | (True, w5) \<Rightarrow> recieve_response params w5)))))))"

subsection \<open>The request of the specification\<close>

text \<open>
  The wire format of a request as the specification gives it (section 6.3), to compare the
  client's buffer with: the magic \<open>31 72 10 23\<close>, the operation byte, the primary length
  in four little-endian bytes, the primary bytes and, for operation 1, the secondary length
  and bytes.
\<close>

definition spec_request :: "byte \<Rightarrow> byte list \<Rightarrow> byte list \<Rightarrow> byte list" where
  "spec_request operation img1 img2 =
     [0x31, 0x72, 0x10, 0x23] @ [operation] @ htole32 (word_of_nat (length img1)) @ img1
     @ (if operation = 1 then htole32 (word_of_nat (length img2)) @ img2 else [])"

text \<open>Zeroed memory, to run \<open>create_request\<close> on.\<close>

definition zero_heap :: "nat \<Rightarrow> byte" where
  "zero_heap a = 0"

section \<open>Concrete inputs\<close>

text \<open>
  The state of a worker that has just been started on a connection whose peer will deliver
  \<open>bs\<close>: \<open>new_connection\<close> has counted the client.
\<close>

definition fresh_world :: "byte list \<Rightarrow> world" where
  "fresh_world bs =
     \<lparr>sock_in = bs, sock_out = [], sock_closed = False,
      stats = \<lparr>currClients = 1, prevClients = 0, faceDetections = 0,
                faceReplacements = 0, badRequests = 0\<rparr>,
      sem_posts = 0, events = []\<rparr>"

text \<open>
  A toy image library to run the server on: an image is its bytes, every non-empty image
  decodes and shows one face without eyes, drawing changes nothing, and a replaced face
  turns the frame into the replacement.
\<close>

definition toy_cv :: "(byte list) opencv" where
  "toy_cv =
     \<lparr>responsefile = bytes_of ''bad prefix'',
      cvLoadImage_color = (\<lambda>bs. if bs = [] then None else Some bs),
      cvLoadImage_unchanged = (\<lambda>bs. if bs = [] then None else Some bs),
      grey_image = (\<lambda>img. img),
      cvCreateMemStorage = (\<lambda>img. True),
      detect_faces = (\<lambda>img. [(0, 0, 1, 1)]),
      detect_eyes = (\<lambda>img face. []),
      cvEllipse = (\<lambda>img center axes. img),
      cvCircle = (\<lambda>img center radius. img),
      replace_pixels = (\<lambda>frame replacement face. replacement),
      cvSaveImage = (\<lambda>img. img)\<rparr>"

definition toy_info :: ClientInfo where
  "toy_info = \<lparr>info_maxSize = 1000, info_limitConnections = True\<rparr>"

text \<open>
  The server without a connection limit after \<open>n\<close> connections have come and gone: the
  acceptor is back at the top of its loop and every worker has returned.
\<close>

definition served :: "nat \<Rightarrow> server" where
  "served n =
     \<lparr>srv_stats = \<lparr>currClients = 0, prevClients = word_of_nat n, faceDetections = 0,
                   faceReplacements = 0, badRequests = 0\<rparr>,
      stats_owner = None, sem = 0, acc_pc = A_sem_wait, rep_pc = R_sigwait,
      workers = replicate n W_done, accepted = n, failed = 0\<rparr>"

definition wrapped_server :: server where
  "wrapped_server = served 4294967296"

text \<open>
  A run of the client with \<open>--outputfilename out.jpg\<close> and an empty standard input, against
  a server that answers with the error frame \<open>image is 0 bytes\<close>; \<open>out.jpg\<close> exists and
  holds three bytes.
\<close>

definition example_client_world :: client_world where
  "example_client_world =
     \<lparr>files = (\<lambda>name. if name = ''out.jpg'' then Some [1, 2, 3] else None),
      readable = (\<lambda>name. True),
      writable = (\<lambda>name. True),
      stdin = [],
      listening = (\<lambda>port. True),
      send_fails = False,
      reply = [0x31, 0x72, 0x10, 0x23, 3, 16, 0, 0, 0] @ bytes_of ''image is 0 bytes'',
      heap = zero_heap,
      stdout = [],
      syscalls = []\<rparr>"

definition example_client_argv :: "string list" where
  "example_client_argv = [''uqfaceclient'', ''8080'', ''--outputfilename'', ''out.jpg'']"

text \<open>
  The server with limit 5 and its first connection, which \<open>accept\<close> has returned: the
  acceptor stands at \<open>p\<close>, \<open>currClients\<close> is \<open>c\<close> and the workers stand at \<open>ws\<close>.
\<close>

definition first_client :: "acceptor_pc \<Rightarrow> thread option \<Rightarrow> uint32 \<Rightarrow> worker_pc list \<Rightarrow> server" where
  "first_client p holder c ws =
     \<lparr>srv_stats = \<lparr>currClients = c, prevClients = 0, faceDetections = 0,
                   faceReplacements = 0, badRequests = 0\<rparr>,
      stats_owner = holder, sem = 4, acc_pc = p, rep_pc = R_sigwait,
      workers = ws, accepted = 1, failed = 0\<rparr>"

definition one_client_server :: server where
  "one_client_server = first_client A_sem_wait None 1 [W_loop]"

text \<open>
  Two states on that run: \<open>accept\<close> has returned and the acceptor has not yet locked
  \<open>statsLock\<close>; the worker has posted the semaphore and stands between \<open>currClients--\<close>
  and \<open>prevClients++\<close>.
\<close>

definition pending_server :: server where
  "pending_server = first_client A_lock None 0 []"

definition half_exited_server :: server where
  "half_exited_server =
     (first_client A_sem_wait (Some (Worker 0)) 0 [W_exit_incr])\<lparr>sem := 5\<rparr>"

text \<open>
  The server without a connection limit after its first call of \<open>accept\<close> has failed and
  the worker created for it has returned.
\<close>

definition failed_accept_server :: server where
  "failed_accept_server =
     \<lparr>srv_stats = \<lparr>currClients = 0, prevClients = 1, faceDetections = 0,
                   faceReplacements = 0, badRequests = 0\<rparr>,
      stats_owner = None, sem = 0, acc_pc = A_sem_wait, rep_pc = R_sigwait,
      workers = [W_done], accepted = 0, failed = 1\<rparr>"

section \<open>Worker threads and the mutexes\<close>

text \<open>
  A thread's own account of its history: the mutexes it has locked and not yet unlocked, and
  whether it is inside \<open>cvHaarDetectObjects\<close>.
\<close>

definition holds :: "event list \<Rightarrow> mutex \<Rightarrow> bool" where
  "holds h m =
     foldl (\<lambda>b e. if e = Lock m then True else if e = Unlock m then False else b) False h"

definition in_detector :: "event list \<Rightarrow> bool" where
  "in_detector h =
     foldl (\<lambda>b e. if e = DetectorEnter then True else if e = DetectorExit then False else b)
       False h"

text \<open>
  The discipline of one thread, checked along its history: it unlocks only a mutex it
  holds, enters the detector only while it holds the cascade mutex, and keeps that mutex
  while it is inside. \<open>None\<close> is a violation.
\<close>

record tstate =
  held :: "mutex set"
  inside :: bool

fun thread_step :: "tstate \<Rightarrow> event \<Rightarrow> tstate option" where
  "thread_step s (Lock m) = Some (s\<lparr>held := insert m (held s)\<rparr>)"
| "thread_step s (Unlock m) =
     (if m \<in> held s \<and> \<not> (m = CascadeLock \<and> inside s)
      then Some (s\<lparr>held := held s - {m}\<rparr>) else None)"
| "thread_step s DetectorEnter =
     (if CascadeLock \<in> held s then Some (s\<lparr>inside := True\<rparr>) else None)"
| "thread_step s DetectorExit = Some (s\<lparr>inside := False\<rparr>)"

fun thread_run :: "tstate \<Rightarrow> event list \<Rightarrow> tstate option" where
  "thread_run s [] = Some s"
| "thread_run s (e # es) =
     (case thread_step s e of None \<Rightarrow> None | Some s' \<Rightarrow> thread_run s' es)"

definition idle :: tstate where
  "idle = \<lparr>held = {}, inside = False\<rparr>"

definition well_locked :: "event list \<Rightarrow> bool" where
  "well_locked h = (thread_run idle h \<noteq> None)"

text \<open>
  Two conditions on the history of a worker: it holds no mutex and is outside the detector
  (between two requests), or it holds at most the cascade mutex and is outside the detector
  (when the loop has ended).
\<close>

definition calm :: "world \<Rightarrow> bool" where
  "calm w = (thread_run idle (events w) = Some idle)"

definition settled :: "world \<Rightarrow> bool" where
  "settled w = (thread_run idle (events w) = Some idle
     \<or> thread_run idle (events w) = Some \<lparr>held = {CascadeLock}, inside = False\<rparr>)"

text \<open>
  The threads together. Thread \<open>t\<close> performs the events of its program \<open>prog t\<close> in order;
  \<open>pc s t\<close> of them are done in state \<open>s\<close>. The threads interleave in any way that the
  mutexes allow: \<open>pthread_mutex_lock\<close> returns only when the mutex is free and makes the
  caller its owner, \<open>pthread_mutex_unlock\<close> frees it.
\<close>

record sched =
  pc :: "nat \<Rightarrow> nat"
  owner :: "mutex \<Rightarrow> nat option"

definition history :: "(nat \<Rightarrow> event list) \<Rightarrow> sched \<Rightarrow> nat \<Rightarrow> event list" where
  "history prog s t = take (pc s t) (prog t)"

definition sched_init :: sched where
  "sched_init = \<lparr>pc = (\<lambda>t. 0), owner = (\<lambda>m. None)\<rparr>"

inductive sched_step :: "(nat \<Rightarrow> event list) \<Rightarrow> sched \<Rightarrow> sched \<Rightarrow> bool"
  for prog :: "nat \<Rightarrow> event list" where
  lock_step:
    "pc s t < length (prog t) \<Longrightarrow> prog t ! pc s t = Lock m \<Longrightarrow> owner s m = None \<Longrightarrow>
     sched_step prog s
       (s\<lparr>pc := (pc s)(t := Suc (pc s t)), owner := (owner s)(m := Some t)\<rparr>)"
| unlock_step:
    "pc s t < length (prog t) \<Longrightarrow> prog t ! pc s t = Unlock m \<Longrightarrow>
     sched_step prog s
       (s\<lparr>pc := (pc s)(t := Suc (pc s t)), owner := (owner s)(m := None)\<rparr>)"
| enter_step:
    "pc s t < length (prog t) \<Longrightarrow> prog t ! pc s t = DetectorEnter \<Longrightarrow>
     sched_step prog s (s\<lparr>pc := (pc s)(t := Suc (pc s t))\<rparr>)"
| exit_step:
    "pc s t < length (prog t) \<Longrightarrow> prog t ! pc s t = DetectorExit \<Longrightarrow>
     sched_step prog s (s\<lparr>pc := (pc s)(t := Suc (pc s t))\<rparr>)"

inductive sched_reachable :: "(nat \<Rightarrow> event list) \<Rightarrow> sched \<Rightarrow> bool"
  for prog :: "nat \<Rightarrow> event list" where
  sched_start: "sched_reachable prog sched_init"
| sched_next: "sched_reachable prog s \<Longrightarrow> sched_step prog s s' \<Longrightarrow> sched_reachable prog s'"

text \<open>
  Workers that all serve the one-byte detect request of the toy library, and the state in
  which worker 0 has locked and unlocked the file mutex, locked the cascade mutex and
  entered the face detector.
\<close>

definition toy_prog :: "nat \<Rightarrow> event list" where
  "toy_prog t =
     events (task_executor toy_cv toy_info
       (fresh_world [0x31, 0x72, 0x10, 0x23, 0, 1, 0, 0, 0, 7]))"

definition toy_sched :: sched where
  "toy_sched =
     \<lparr>pc = (\<lambda>t. if t = 0 then 4 else 0),
      owner = (\<lambda>m. if m = CascadeLock then Some 0 else None)\<rparr>"

section \<open>Properties of the server\<close>

subsection \<open>Little-endian integers\<close>

lemma mask8: "(0xFF :: 32 word) = mask 8"
  by (simp add: mask_eq_exp_minus_1)

lemma le32toh_htole32: "le32toh (htole32 x) = x"
  unfolding htole32_def le32toh_def
  apply (rule bit_word_eqI)
  apply (simp add: bit_simps mask8 cong: conj_cong)
  apply (auto simp: not_less)
  done

lemma length_htole32 [simp]: "length (htole32 x) = 4"
  by (simp add: htole32_def)

lemma htole32_PREFIX: "htole32 PREFIX = [0x31, 0x72, 0x10, 0x23]"
  by (simp add: htole32_def PREFIX_def)

lemma uint32_le_max: "(n :: uint32) \<le> 0xFFFFFFFF"
  using unsigned_less [of n, where ?'a = nat] by (simp add: word_le_nat_alt)

lemma byte_gt_1: "(1 < (b :: byte)) = (b \<noteq> 0 \<and> b \<noteq> 1)"
  by (auto simp: word_less_nat_alt word_unat_eq_iff)

subsection \<open>The command line\<close>

lemmas server_consts = COMMAND_LINE_ERROR_def MAX_CONNECTIONS_def PORTNUM_INDEX_def
  EXTRA_CMD_LINE_ARGS_def PORTNUM_INCLUDED_def UINT32_MAX_def ULONG_MAX_def LONG_MAX_def

lemmas parse_defs = parse_command_line_def server_consts Let_def atoi_def strtoul_def
  decimal_def skip_plus_def digit_val_def isdigit_def

lemma parse_maxSize_nonzero: "parse_command_line argv = Inr params \<Longrightarrow> maxSize params \<noteq> 0"
  by (auto simp add: parse_command_line_def server_consts Let_def split: prod.splits if_splits)

lemma parse_example:
  "parse_command_line [''uqfacedetect'', ''5'', ''1000''] =
     Inr \<lparr>connectionLimit = 5, maxSize = 1000, portnum = ''0'', portnumGiven = False\<rparr>"
  by (simp add: parse_defs)

lemma parse_example_unlimited:
  "parse_command_line [''uqfacedetect'', ''5'', ''0''] =
     Inr \<lparr>connectionLimit = 5, maxSize = 0xFFFFFFFF, portnum = ''0'', portnumGiven = False\<rparr>"
  by (simp add: parse_defs)

lemma parse_example_port_zero:
  "parse_command_line [''uqfacedetect'', ''5'', ''1000'', ''0''] =
     Inr \<lparr>connectionLimit = 5, maxSize = 1000, portnum = ''0'', portnumGiven = False\<rparr>"
  by (simp add: parse_defs)

text \<open>
  C6. Started with a \<open>maxSize\<close> argument that reads as 0, the server runs every worker with
  the cap \<open>UINT32_MAX\<close>, and \<open>check_image_size\<close> then has two outcomes only, for every 32-bit
  length: the 0-bytes error for length 0 and acceptance otherwise. The
  \<open>image too large\<close> reply is never sent.
\<close>

theorem maxsize_zero_never_too_large:
  assumes "parse_command_line argv = Inr params" and "fst (strtoul (argv ! 2)) = 0"
  shows "maxSize params = 0xFFFFFFFF \<and>
         check_image_size imageSize (new_client_info params) w =
           (if imageSize = 0 then (True, error_reply ''image is 0 bytes'' w) else (False, w))"
proof -
  from assms have m: "maxSize params = 0xFFFFFFFF"
    by (auto simp add: parse_command_line_def server_consts Let_def
        split: prod.splits if_splits)
  with uint32_le_max [of imageSize] show ?thesis
    by (simp add: check_image_size_def new_client_info_def not_less [symmetric])
qed

theorem maxsize_zero_never_too_large_witness:
  "parse_command_line [''uqfacedetect'', ''5'', ''0''] =
     Inr \<lparr>connectionLimit = 5, maxSize = 0xFFFFFFFF, portnum = ''0'', portnumGiven = False\<rparr>
   \<and> fst (strtoul ([''uqfacedetect'', ''5'', ''0''] ! 2)) = 0
   \<and> check_image_size 0xFFFFFFFF
        (new_client_info \<lparr>connectionLimit = 5, maxSize = 0xFFFFFFFF, portnum = ''0'',
                          portnumGiven = False\<rparr>) (fresh_world [])
      = (False, fresh_world [])"
proof -
  have z: "fst (strtoul ([''uqfacedetect'', ''5'', ''0''] ! 2)) = 0"
    by (simp add: parse_defs)
  from maxsize_zero_never_too_large [OF parse_example_unlimited z, of "0xFFFFFFFF" "fresh_world []"]
    parse_example_unlimited z
  show ?thesis by simp
qed

text \<open>
  C7, as the claim states it, fails: a fourth argument that is the empty string ends the
  server with the usage error, exit code 19.
\<close>

theorem empty_portnum_exits_19:
  "parse_command_line [''uqfacedetect'', ''5'', ''1000'', ''''] = Inl 19"
  by (simp add: parse_defs)

text \<open>
  C7, amended. A \<open>portnum\<close> argument that is present and empty is a command line error
  (exit code 19), whatever the other arguments are. On a command line whose first two
  arguments are accepted, an omitted \<open>portnum\<close> leaves the port string \<open>0\<close> (a port chosen
  by the kernel), the argument \<open>0\<close> gives the same parameters as no argument, and every
  other non-empty argument either reads as the number 0 under \<open>valid_cmd_line_number\<close> and
  \<open>atoi\<close>, with the same result again, or is kept as the port string.
\<close>

theorem portnum_argument_cases:
  "parse_command_line [prog, limit, cap, ''''] = Inl 19
   \<and> (parse_command_line [prog, limit, cap] = Inr params \<longrightarrow>
        portnum params = ''0'' \<and> \<not> portnumGiven params
        \<and> parse_command_line [prog, limit, cap, ''0''] = Inr params
        \<and> (a \<noteq> '''' \<longrightarrow>
             parse_command_line [prog, limit, cap, a] =
               Inr (if valid_cmd_line_number a \<and> atoi a = 0 then params
                    else params\<lparr>portnum := a, portnumGiven := True\<rparr>)))"
proof (intro conjI impI)
  show "parse_command_line [prog, limit, cap, ''''] = Inl 19"
    by (simp add: parse_command_line_def server_consts Let_def split: prod.splits)
next
  assume p: "parse_command_line [prog, limit, cap] = Inr params"
  then show "portnum params = ''0''"
    by (auto simp add: parse_command_line_def server_consts Let_def
        split: prod.splits if_splits)
  from p show "\<not> portnumGiven params"
    by (auto simp add: parse_command_line_def server_consts Let_def
        split: prod.splits if_splits)
  have zero: "valid_cmd_line_number ''0'' \<and> atoi ''0'' = 0"
    by (simp add: parse_defs)
  from p zero show "parse_command_line [prog, limit, cap, ''0''] = Inr params"
    by (auto simp add: parse_command_line_def server_consts Let_def
        split: prod.splits if_splits)
  assume "a \<noteq> ''''"
  with p show "parse_command_line [prog, limit, cap, a] =
      Inr (if valid_cmd_line_number a \<and> atoi a = 0 then params
           else params\<lparr>portnum := a, portnumGiven := True\<rparr>)"
    by (auto simp add: parse_command_line_def server_consts Let_def
        split: prod.splits if_splits)
qed

theorem portnum_argument_cases_witness:
  "parse_command_line [''uqfacedetect'', ''5'', ''1000'', ''''] = Inl 19
   \<and> parse_command_line [''uqfacedetect'', ''5'', ''1000''] =
       Inr \<lparr>connectionLimit = 5, maxSize = 1000, portnum = ''0'', portnumGiven = False\<rparr>
   \<and> parse_command_line [''uqfacedetect'', ''5'', ''1000'', ''0''] =
       Inr \<lparr>connectionLimit = 5, maxSize = 1000, portnum = ''0'', portnumGiven = False\<rparr>
   \<and> parse_command_line [''uqfacedetect'', ''5'', ''1000'', ''00''] =
       Inr \<lparr>connectionLimit = 5, maxSize = 1000, portnum = ''0'', portnumGiven = False\<rparr>
   \<and> parse_command_line [''uqfacedetect'', ''5'', ''1000'', ''8080''] =
       Inr \<lparr>connectionLimit = 5, maxSize = 1000, portnum = ''8080'', portnumGiven = True\<rparr>"
proof -
  let ?p = "\<lparr>connectionLimit = 5, maxSize = 1000, portnum = ''0'', portnumGiven = False\<rparr>"
  have z: "valid_cmd_line_number ''00'' \<and> atoi ''00'' = 0"
    by (simp add: parse_defs)
  have k: "\<not> (valid_cmd_line_number ''8080'' \<and> atoi ''8080'' = 0)"
    by (simp add: parse_defs)
  from portnum_argument_cases [of "''uqfacedetect''" "''5''" "''1000''" ?p "''00''"]
    portnum_argument_cases [of "''uqfacedetect''" "''5''" "''1000''" ?p "''8080''"]
    parse_example z k
  show ?thesis by simp
qed

subsection \<open>Reading a request\<close>

lemma read_bytes_append:
  "sock_in w = bs @ rest \<Longrightarrow> length bs = n \<Longrightarrow>
   read_bytes n w = (Some bs, w\<lparr>sock_in := rest\<rparr>)"
  by (simp add: read_bytes_def)

lemma read_bytes_short:
  "length (sock_in w) < n \<Longrightarrow> read_bytes n w = (None, w\<lparr>sock_in := []\<rparr>)"
  by (simp add: read_bytes_def)

lemma check_prefix_ok:
  "sock_in w = htole32 PREFIX @ rest \<Longrightarrow> check_prefix cv w = (False, w\<lparr>sock_in := rest\<rparr>)"
  by (simp add: check_prefix_def read_bytes_append [where bs = "htole32 PREFIX"]
      le32toh_htole32)

lemma check_operation_byte:
  "sock_in w = operation # rest \<Longrightarrow>
   check_operation w =
     (if operation > 1 then (OPERATION_ERROR, wrong_operation (w\<lparr>sock_in := rest\<rparr>))
      else (operation, w\<lparr>sock_in := rest\<rparr>))"
  by (simp add: check_operation_def read_bytes_append [where bs = "[operation]"])

lemma determine_image_size_le:
  "sock_in w = htole32 n @ rest \<Longrightarrow>
   determine_image_size info w =
     (case check_image_size n info (w\<lparr>sock_in := rest\<rparr>) of
        (True, w2) \<Rightarrow> (0, w2) | (False, w2) \<Rightarrow> (n, w2))"
  by (simp add: determine_image_size_def read_bytes_append [where bs = "htole32 n"]
      le32toh_htole32)

lemma task_loop_stop:
  "\<not> fst (serve_request cv info w) \<Longrightarrow> task_loop cv info w = snd (serve_request cv info w)"
  by (subst task_loop.simps) simp

lemma task_loop_go:
  "fst (serve_request cv info w) \<Longrightarrow>
   task_loop cv info w = task_loop cv info (snd (serve_request cv info w))"
  by (subst task_loop.simps) simp

lemma task_executor_socket:
  "sock_out (task_executor cv info w) = sock_out (task_loop cv info w)"
  "sock_closed (task_executor cv info w) = sock_closed (task_loop cv info w)"
  by (simp_all add: task_executor_def update_client_stats_def sem_post_def lock_def
      unlock_def Let_def)

lemma error_reply_socket:
  "sock_out (error_reply msg w) =
     sock_out w @ htole32 PREFIX @ [3] @ htole32 (word_of_nat (length msg))
       @ take (unat (word_of_nat (length msg) :: uint32)) (bytes_of msg)"
  "sock_closed (error_reply msg w)"
  by (simp_all add: error_reply_def close_socket_def send_output_def send_bytes_def
      ERROR_OPERATION_def)

lemma serve_bad_operation:
  assumes "sock_in w = [0x31, 0x72, 0x10, 0x23] @ operation # rest"
    and "operation \<noteq> 0" and "operation \<noteq> 1"
  shows "serve_request cv info w = (False, wrong_operation (w\<lparr>sock_in := rest\<rparr>))"
proof -
  from assms(1) have "sock_in w = htole32 PREFIX @ (operation # rest)"
    by (simp add: htole32_PREFIX)
  from check_prefix_ok [OF this, of cv] assms(2,3) show ?thesis
    by (simp add: serve_request_def check_operation_byte byte_gt_1)
qed

text \<open>
  After a matching prefix, a valid operation byte and a length, the rest of the iteration
  is the size check, the payload read and \<open>image_executor\<close>.
\<close>

lemma serve_header:
  assumes "sock_in w = [0x31, 0x72, 0x10, 0x23] @ operation # htole32 n @ rest"
    and "operation = 0 \<or> operation = 1"
  shows "serve_request cv info w =
     (case check_image_size n info (w\<lparr>sock_in := rest\<rparr>) of
        (True, w3) \<Rightarrow> (False, w3)
      | (False, w3) \<Rightarrow>
          (case read_bytes (unat n) w3 of
             (None, w4) \<Rightarrow> (False, invalid_message w4)
           | (Some imageData, w4) \<Rightarrow>
               (case image_executor cv info imageData n operation w4 of
                  (True, w5) \<Rightarrow> (False, w5)
                | (False, w5) \<Rightarrow> (True, w5))))"
proof -
  from assms(1) have "sock_in w = htole32 PREFIX @ (operation # htole32 n @ rest)"
    by (simp add: htole32_PREFIX)
  from check_prefix_ok [OF this, of cv] assms(2) show ?thesis
    by (auto simp add: serve_request_def check_operation_byte determine_image_size_le
        OPERATION_ERROR_def check_image_size_def split: prod.splits bool.splits)
qed

lemma reply_invalid_operation:
  assumes "sock_in w = [0x31, 0x72, 0x10, 0x23] @ operation # rest"
    and "operation \<noteq> 0" and "operation \<noteq> 1"
  shows "sock_out (task_executor cv info w) =
           sock_out w @ [0x31, 0x72, 0x10, 0x23, 3, 22, 0, 0, 0]
             @ bytes_of ''invalid operation type''
         \<and> sock_closed (task_executor cv info w)"
  using serve_bad_operation [OF assms, of cv info]
  by (simp add: task_executor_socket task_loop_stop wrong_operation_def error_reply_socket
      htole32_PREFIX)
     (simp add: htole32_def bytes_of_def byte_of_char_def)

lemma reply_zero_bytes:
  assumes "sock_in w = [0x31, 0x72, 0x10, 0x23] @ operation # htole32 n @ rest"
    and "operation = 0 \<or> operation = 1" and "n = 0"
  shows "sock_out (task_executor cv info w) =
           sock_out w @ [0x31, 0x72, 0x10, 0x23, 3, 16, 0, 0, 0] @ bytes_of ''image is 0 bytes''
         \<and> sock_closed (task_executor cv info w)"
  using assms(3)
  by (simp add: serve_header [OF assms(1,2)] task_executor_socket task_loop_stop
      check_image_size_def error_reply_socket htole32_PREFIX)
     (simp add: htole32_def bytes_of_def byte_of_char_def)

lemma reply_too_large:
  assumes "sock_in w = [0x31, 0x72, 0x10, 0x23] @ operation # htole32 n @ rest"
    and "operation = 0 \<or> operation = 1" and "n \<noteq> 0"
    and "info_maxSize info \<noteq> 0" and "n > info_maxSize info"
  shows "sock_out (task_executor cv info w) =
           sock_out w @ [0x31, 0x72, 0x10, 0x23, 3, 15, 0, 0, 0] @ bytes_of ''image too large''
         \<and> sock_closed (task_executor cv info w)"
  using assms(3-)
  by (simp add: serve_header [OF assms(1,2)] task_executor_socket task_loop_stop
      check_image_size_def error_reply_socket htole32_PREFIX)
     (simp add: htole32_def bytes_of_def byte_of_char_def)

lemma reply_short_payload:
  assumes "sock_in w = [0x31, 0x72, 0x10, 0x23] @ operation # htole32 n @ rest"
    and "operation = 0 \<or> operation = 1" and "n \<noteq> 0"
    and "n \<le> info_maxSize info" and "length rest < unat n"
  shows "sock_out (task_executor cv info w) =
           sock_out w @ [0x31, 0x72, 0x10, 0x23, 3, 15, 0, 0, 0] @ bytes_of ''invalid message''
         \<and> sock_closed (task_executor cv info w)"
proof -
  from assms(4) have "\<not> info_maxSize info < n" by simp
  with assms(3,5)
  have "serve_request cv info w = (False, invalid_message (w\<lparr>sock_in := []\<rparr>))"
    by (simp add: serve_header [OF assms(1,2)] check_image_size_def read_bytes_short)
  then show ?thesis
    by (simp add: task_executor_socket task_loop_stop invalid_message_def
        error_reply_socket htole32_PREFIX)
       (simp add: htole32_def bytes_of_def byte_of_char_def)
qed

subsection \<open>What a request does to the statistics\<close>

lemma stats_basic [simp]:
  "stats (lock m w) = stats w" "stats (unlock m w) = stats w"
  "stats (send_bytes bs w) = stats w" "stats (close_socket w) = stats w"
  "stats (cvHaarDetectObjects w) = stats w"
  "stats (send_output operation out sz w) = stats w"
  "stats (error_reply msg w) = stats w"
  by (simp_all add: lock_def unlock_def send_bytes_def close_socket_def
      cvHaarDetectObjects_def send_output_def error_reply_def)

lemma stats_replies [simp]:
  "stats (invalid_message w) = stats w" "stats (wrong_operation w) = stats w"
  "stats (invalid_image w) = stats w" "stats (no_faces w) = stats w"
  "stats (output_face_detection cv frame w) = stats w"
  by (simp_all add: invalid_message_def wrong_operation_def invalid_image_def no_faces_def
      output_face_detection_def Let_def)

lemma stats_read_bytes: "read_bytes n w = (r, w') \<Longrightarrow> stats w' = stats w"
  by (auto simp: read_bytes_def split: if_splits)

lemma stats_draw_faces:
  "draw_faces cv g faces (frame, w) = (frame', w') \<Longrightarrow> stats w' = stats w"
  by (induction faces arbitrary: frame w) (auto simp add: Let_def split: prod.splits)

lemma stats_check_image_size: "check_image_size n info w = (r, w') \<Longrightarrow> stats w' = stats w"
  by (auto simp add: check_image_size_def split: if_splits)

lemma stats_recv_replacement: "recv_replacement info w = (r, w') \<Longrightarrow> stats w' = stats w"
  by (fastforce simp: recv_replacement_def Let_def
      split: prod.splits option.splits bool.splits
      dest!: stats_read_bytes stats_check_image_size)

lemma stats_create_replacement: "create_replacement cv info w = (r, w') \<Longrightarrow> stats w' = stats w"
  by (fastforce simp: create_replacement_def Let_def split: prod.splits option.splits
      dest!: stats_recv_replacement)

lemma bad_execute_replacement:
  "execute_replacement cv info frame faces w = (r, w') \<Longrightarrow>
   badRequests (stats w') = badRequests (stats w)"
  by (fastforce simp: execute_replacement_def replace_face_def Let_def
      split: prod.splits option.splits dest!: stats_create_replacement)

lemma stats_find_faces: "find_faces cv grey st w = (r, w') \<Longrightarrow> stats w' = stats w"
  by (auto simp: find_faces_def Let_def split: if_splits)

lemma stats_create_frame: "create_frame cv im sz w = (r, w') \<Longrightarrow> stats w' = stats w"
  by (auto simp: create_frame_def Let_def split: option.splits)

lemma bad_image_executor:
  "image_executor cv info im sz operation w = (r, w') \<Longrightarrow>
   badRequests (stats w') = badRequests (stats w)"
  by (fastforce simp: image_executor_def Let_def split: prod.splits option.splits if_splits
      dest!: bad_execute_replacement stats_find_faces stats_create_frame stats_draw_faces)

lemma stats_check_operation: "check_operation w = (r, w') \<Longrightarrow> stats w' = stats w"
  by (auto simp: check_operation_def split: prod.splits option.splits if_splits
      dest!: stats_read_bytes)

lemma stats_determine_image_size: "determine_image_size info w = (r, w') \<Longrightarrow> stats w' = stats w"
  by (fastforce simp: determine_image_size_def Let_def
      split: prod.splits option.splits bool.splits
      dest!: stats_read_bytes stats_check_image_size)

lemma htole32_le32toh: "length bs = 4 \<Longrightarrow> htole32 (le32toh bs) = bs"
proof -
  assume "length bs = 4"
  then obtain a b c d where bs: "bs = [a, b, c, d]"
    by (auto simp: length_Suc_conv numeral_eq_Suc)
  show ?thesis
    unfolding bs htole32_def le32toh_def
    apply simp
    apply (intro conjI bit_word_eqI)
       apply (simp_all add: bit_simps mask8 cong: conj_cong)
       apply (auto simp: not_less dest: bit_imp_le_length)
    done
qed

lemma prefix_mismatch:
  "length bs = 4 \<Longrightarrow> (le32toh bs \<noteq> PREFIX) = (bs \<noteq> [0x31, 0x72, 0x10, 0x23])"
  using htole32_le32toh [of bs] le32toh_htole32 [of PREFIX]
  by (auto simp: htole32_PREFIX)

lemma check_prefix_cases:
  "check_prefix cv w =
     (if length (sock_in w) < 4 then (True, invalid_message (w\<lparr>sock_in := []\<rparr>))
      else if take 4 (sock_in w) \<noteq> [0x31, 0x72, 0x10, 0x23]
      then (True, bad_request cv (w\<lparr>sock_in := drop 4 (sock_in w)\<rparr>))
      else (False, w\<lparr>sock_in := drop 4 (sock_in w)\<rparr>))"
  by (simp add: check_prefix_def read_bytes_def prefix_mismatch)

lemma bad_serve_ok:
  assumes "check_prefix cv w = (False, w1)"
  shows "badRequests (stats (snd (serve_request cv info w))) = badRequests (stats w1)"
  using assms
  by (fastforce simp: serve_request_def split: prod.splits option.splits bool.splits if_splits
     dest!: stats_check_operation stats_determine_image_size bad_image_executor stats_read_bytes)

subsection \<open>The validation order (C1)\<close>

text \<open>
  C1. On a connection whose next four bytes are the magic, a worker started with the
  parsed command line validates in this order: an operation byte other than 0 and 1 is
  answered with \<open>invalid operation type\<close>, whatever follows it; otherwise a little-endian
  length of 0 is answered with \<open>image is 0 bytes\<close>; otherwise a length above the
  configured cap with \<open>image too large\<close>; otherwise a payload that ends early with
  \<open>invalid message\<close>. Each answer is one frame of the magic, operation 3, the length of
  the text and the bytes of the text, with nothing after it, and the socket is closed. The
  state \<open>w\<close> is arbitrary, so this holds for the first request and for every later one.
\<close>

theorem request_validation_order:
  assumes "parse_command_line argv = Inr params"
  shows
    "(sock_in w = [0x31, 0x72, 0x10, 0x23] @ operation # rest
        \<and> operation \<noteq> 0 \<and> operation \<noteq> 1
      \<longrightarrow> sock_out (task_executor cv (new_client_info params) w) =
            sock_out w @ [0x31, 0x72, 0x10, 0x23, 3, 22, 0, 0, 0]
              @ bytes_of ''invalid operation type''
          \<and> sock_closed (task_executor cv (new_client_info params) w))
     \<and> (sock_in w = [0x31, 0x72, 0x10, 0x23] @ operation # htole32 n @ rest
          \<and> (operation = 0 \<or> operation = 1) \<and> n = 0
        \<longrightarrow> sock_out (task_executor cv (new_client_info params) w) =
              sock_out w @ [0x31, 0x72, 0x10, 0x23, 3, 16, 0, 0, 0]
                @ bytes_of ''image is 0 bytes''
            \<and> sock_closed (task_executor cv (new_client_info params) w))
     \<and> (sock_in w = [0x31, 0x72, 0x10, 0x23] @ operation # htole32 n @ rest
          \<and> (operation = 0 \<or> operation = 1) \<and> n \<noteq> 0 \<and> n > maxSize params
        \<longrightarrow> sock_out (task_executor cv (new_client_info params) w) =
              sock_out w @ [0x31, 0x72, 0x10, 0x23, 3, 15, 0, 0, 0]
                @ bytes_of ''image too large''
            \<and> sock_closed (task_executor cv (new_client_info params) w))
     \<and> (sock_in w = [0x31, 0x72, 0x10, 0x23] @ operation # htole32 n @ rest
          \<and> (operation = 0 \<or> operation = 1) \<and> n \<noteq> 0 \<and> n \<le> maxSize params
          \<and> length rest < unat n
        \<longrightarrow> sock_out (task_executor cv (new_client_info params) w) =
              sock_out w @ [0x31, 0x72, 0x10, 0x23, 3, 15, 0, 0, 0]
                @ bytes_of ''invalid message''
            \<and> sock_closed (task_executor cv (new_client_info params) w))"
proof -
  have cap: "info_maxSize (new_client_info params) = maxSize params"
    by (simp add: new_client_info_def)
  have nz: "info_maxSize (new_client_info params) \<noteq> 0"
    using parse_maxSize_nonzero [OF assms] by (simp add: cap)
  show ?thesis
    using reply_invalid_operation [of w operation rest cv "new_client_info params"]
      reply_zero_bytes [of w operation n rest cv "new_client_info params"]
      reply_too_large [of w operation n rest "new_client_info params" cv]
      reply_short_payload [of w operation n rest "new_client_info params" cv]
      nz
    unfolding cap by blast
qed

theorem request_validation_order_witness:
  "parse_command_line [''uqfacedetect'', ''5'', ''1000''] =
     Inr \<lparr>connectionLimit = 5, maxSize = 1000, portnum = ''0'', portnumGiven = False\<rparr>
   \<and> sock_out (task_executor toy_cv
        (new_client_info
          \<lparr>connectionLimit = 5, maxSize = 1000, portnum = ''0'', portnumGiven = False\<rparr>)
        (fresh_world ([0x31, 0x72, 0x10, 0x23] @ 2 # [])))
      = [0x31, 0x72, 0x10, 0x23, 3, 22, 0, 0, 0] @ bytes_of ''invalid operation type''
   \<and> sock_out (task_executor toy_cv
        (new_client_info
          \<lparr>connectionLimit = 5, maxSize = 1000, portnum = ''0'', portnumGiven = False\<rparr>)
        (fresh_world ([0x31, 0x72, 0x10, 0x23] @ 0 # htole32 0 @ [])))
      = [0x31, 0x72, 0x10, 0x23, 3, 16, 0, 0, 0] @ bytes_of ''image is 0 bytes''
   \<and> (1001 :: uint32) > 1000
   \<and> sock_out (task_executor toy_cv
        (new_client_info
          \<lparr>connectionLimit = 5, maxSize = 1000, portnum = ''0'', portnumGiven = False\<rparr>)
        (fresh_world ([0x31, 0x72, 0x10, 0x23] @ 1 # htole32 1001 @ [])))
      = [0x31, 0x72, 0x10, 0x23, 3, 15, 0, 0, 0] @ bytes_of ''image too large''
   \<and> length [7 :: byte] < unat (2 :: uint32)
   \<and> sock_out (task_executor toy_cv
        (new_client_info
          \<lparr>connectionLimit = 5, maxSize = 1000, portnum = ''0'', portnumGiven = False\<rparr>)
        (fresh_world ([0x31, 0x72, 0x10, 0x23] @ 0 # htole32 2 @ [7])))
      = [0x31, 0x72, 0x10, 0x23, 3, 15, 0, 0, 0] @ bytes_of ''invalid message''"
  using
    request_validation_order [OF parse_example,
      of "fresh_world ([0x31, 0x72, 0x10, 0x23] @ 2 # [])" 2 "[]" toy_cv]
    request_validation_order [OF parse_example,
      of "fresh_world ([0x31, 0x72, 0x10, 0x23] @ 0 # htole32 0 @ [])" 0 "[]" toy_cv 0]
    request_validation_order [OF parse_example,
      of "fresh_world ([0x31, 0x72, 0x10, 0x23] @ 1 # htole32 1001 @ [])" 1 "[]" toy_cv 1001]
    request_validation_order [OF parse_example,
      of "fresh_world ([0x31, 0x72, 0x10, 0x23] @ 0 # htole32 2 @ [7])" 0 "[7]" toy_cv 2]
    parse_example
  by (simp add: fresh_world_def)

subsection \<open>A run of the toy library\<close>

lemmas toy_eval = image_executor_def create_frame_def find_faces_def
  output_face_detection_def send_output_def send_bytes_def lock_def unlock_def
  cvHaarDetectObjects_def Let_def toy_cv_def half_def

lemma toy_detect:
  "image_executor toy_cv info [7] 1 0 w =
    (False, w\<lparr>sock_out := sock_out w @ [0x31, 0x72, 0x10, 0x23, 2, 1, 0, 0, 0, 7],
        stats := (stats w)\<lparr>faceDetections := faceDetections (stats w) + 1\<rparr>,
        events := events w @
          [Lock FileLock, Unlock FileLock,
           Lock CascadeLock, DetectorEnter, DetectorExit, Unlock CascadeLock,
           Lock CascadeLock, DetectorEnter, DetectorExit, Unlock CascadeLock,
           Lock FileLock, Unlock FileLock, Lock StatsLock, Unlock StatsLock]\<rparr>)"
  by (simp add: toy_eval htole32_def PREFIX_def)

lemma toy_serve:
  assumes "sock_in w = [0x31, 0x72, 0x10, 0x23, 0, 1, 0, 0, 0, 7] @ rest"
  shows "serve_request toy_cv toy_info w =
           (True, snd (image_executor toy_cv toy_info [7] 1 0 (w\<lparr>sock_in := rest\<rparr>)))"
proof -
  have "sock_in w = [0x31, 0x72, 0x10, 0x23] @ 0 # htole32 1 @ ([7] @ rest)"
    using assms by (simp add: htole32_def)
  from serve_header [OF this, of toy_cv toy_info] show ?thesis
    by (simp add: check_image_size_def toy_info_def read_bytes_def toy_detect)
qed

subsection \<open>End of file between requests (C5)\<close>

text \<open>
  C5, as the claim states it, fails: after one detect request that was served (the
  operation-2 frame), the peer closes; the worker then sends the \<open>invalid message\<close>
  error frame.
\<close>

theorem eof_between_requests_sends_error_frame:
  "sock_out (task_executor toy_cv toy_info
      (fresh_world [0x31, 0x72, 0x10, 0x23, 0, 1, 0, 0, 0, 7]))
    = [0x31, 0x72, 0x10, 0x23, 2, 1, 0, 0, 0, 7]
      @ [0x31, 0x72, 0x10, 0x23, 3, 15, 0, 0, 0] @ bytes_of ''invalid message''"
proof -
  let ?w = "fresh_world [0x31, 0x72, 0x10, 0x23, 0, 1, 0, 0, 0, 7]"
  have s: "serve_request toy_cv toy_info ?w =
      (True, snd (image_executor toy_cv toy_info [7] 1 0 (?w\<lparr>sock_in := []\<rparr>)))"
    by (rule toy_serve) (simp add: fresh_world_def)
  show ?thesis
    apply (simp add: task_executor_socket)
    apply (subst task_loop_go)
     apply (simp add: s)
    apply (simp add: s toy_detect)
    apply (subst task_loop_stop)
     apply (simp add: serve_request_def check_prefix_cases)
    apply (simp add: serve_request_def check_prefix_cases invalid_message_def
        error_reply_socket htole32_PREFIX fresh_world_def)
    apply (simp add: htole32_def bytes_of_def byte_of_char_def)
    done
qed

text \<open>
  C5, amended. When the peer's stream ends exactly where the next prefix would begin, the
  worker hands the operation-3 frame \<open>invalid message\<close> to the socket, as for any other
  short read of the prefix, and then closes the connection. (Whether the frame reaches a
  peer that has closed is up to the network; the worker sends it.)
\<close>

theorem eof_at_prefix_boundary:
  assumes "sock_in w = []"
  shows "sock_out (task_executor cv info w) =
           sock_out w @ [0x31, 0x72, 0x10, 0x23, 3, 15, 0, 0, 0] @ bytes_of ''invalid message''
         \<and> sock_closed (task_executor cv info w)"
proof -
  from assms have "serve_request cv info w = (False, invalid_message (w\<lparr>sock_in := []\<rparr>))"
    by (simp add: serve_request_def check_prefix_cases)
  then show ?thesis
    by (simp add: task_executor_socket task_loop_stop invalid_message_def
        error_reply_socket htole32_PREFIX)
       (simp add: htole32_def bytes_of_def byte_of_char_def)
qed

theorem eof_at_prefix_boundary_witness:
  "sock_in (fresh_world []) = []
   \<and> sock_out (task_executor toy_cv toy_info (fresh_world [])) =
       [0x31, 0x72, 0x10, 0x23, 3, 15, 0, 0, 0] @ bytes_of ''invalid message''
   \<and> sock_closed (task_executor toy_cv toy_info (fresh_world []))"
proof -
  have e: "sock_in (fresh_world []) = []" by (simp add: fresh_world_def)
  from eof_at_prefix_boundary [OF e, of toy_cv toy_info] e show ?thesis
    by (simp add: fresh_world_def)
qed

subsection \<open>The bad-prefix path (C4)\<close>

text \<open>
  C4, as the claim states it, fails: after one detect request that was served, four bytes
  that are not the magic open the second request; the worker sends the response file and
  counts a malformed request.
\<close>

theorem bad_prefix_on_later_request:
  "sock_out (task_executor toy_cv toy_info
      (fresh_world [0x31, 0x72, 0x10, 0x23, 0, 1, 0, 0, 0, 7, 0, 0, 0, 0]))
    = [0x31, 0x72, 0x10, 0x23, 2, 1, 0, 0, 0, 7] @ responsefile toy_cv
   \<and> badRequests (stats (task_executor toy_cv toy_info
        (fresh_world [0x31, 0x72, 0x10, 0x23, 0, 1, 0, 0, 0, 7, 0, 0, 0, 0]))) = 1"
proof -
  let ?w = "fresh_world [0x31, 0x72, 0x10, 0x23, 0, 1, 0, 0, 0, 7, 0, 0, 0, 0]"
  have s: "serve_request toy_cv toy_info ?w =
      (True, snd (image_executor toy_cv toy_info [7] 1 0 (?w\<lparr>sock_in := [0, 0, 0, 0]\<rparr>)))"
    by (rule toy_serve) (simp add: fresh_world_def)
  have l: "task_loop toy_cv toy_info ?w =
      bad_request toy_cv
        ((snd (image_executor toy_cv toy_info [7] 1 0 (?w\<lparr>sock_in := [0, 0, 0, 0]\<rparr>)))
          \<lparr>sock_in := []\<rparr>)"
    apply (subst task_loop_go)
     apply (simp add: s)
    apply (simp add: s toy_detect)
    apply (subst task_loop_stop)
     apply (simp add: serve_request_def check_prefix_cases)
    apply (simp add: serve_request_def check_prefix_cases)
    done
  show ?thesis
    apply (simp add: task_executor_socket l)
    apply (simp add: task_executor_def l Let_def update_client_stats_def
        stats_client_exit_def sem_post_def)
    apply (simp add: toy_detect bad_request_def send_prefix_file_def Let_def
        close_socket_def send_bytes_def lock_def unlock_def fresh_world_def)
    apply (simp add: toy_cv_def bytes_of_def)
    done
qed

text \<open>
  C4, amended. In every iteration of the worker's loop, the first request of a connection
  or a later one: if four bytes were read where the prefix is expected and they are not the
  magic, the iteration ends the loop, sends the response file as it is (a file shorter
  than \<open>2^32\<close> bytes) and no error frame, counts one malformed request and closes the
  socket; in every other case (fewer than four bytes, or the magic) the iteration leaves
  the count of malformed requests as it was.
\<close>

theorem bad_prefix_at_any_request:
  "(4 \<le> length (sock_in w) \<and> take 4 (sock_in w) \<noteq> [0x31, 0x72, 0x10, 0x23]
      \<and> length (responsefile cv) < 2 ^ 32
    \<longrightarrow> \<not> fst (serve_request cv info w)
        \<and> sock_out (snd (serve_request cv info w)) = sock_out w @ responsefile cv
        \<and> sock_closed (snd (serve_request cv info w))
        \<and> badRequests (stats (snd (serve_request cv info w))) = badRequests (stats w) + 1)
   \<and> (length (sock_in w) < 4 \<or> take 4 (sock_in w) = [0x31, 0x72, 0x10, 0x23]
      \<longrightarrow> badRequests (stats (snd (serve_request cv info w))) = badRequests (stats w))"
proof (intro conjI impI)
  assume a: "4 \<le> length (sock_in w) \<and> take 4 (sock_in w) \<noteq> [0x31, 0x72, 0x10, 0x23]
      \<and> length (responsefile cv) < 2 ^ 32"
  then have s: "serve_request cv info w =
      (False, bad_request cv (w\<lparr>sock_in := drop 4 (sock_in w)\<rparr>))"
    by (simp add: serve_request_def check_prefix_cases)
  from a have t: "unat (word_of_nat (length (responsefile cv)) :: uint32)
      = length (responsefile cv)"
    by (simp add: unat_of_nat take_bit_nat_eq_self)
  show "\<not> fst (serve_request cv info w)" by (simp add: s)
  show "sock_out (snd (serve_request cv info w)) = sock_out w @ responsefile cv"
    by (simp add: s bad_request_def send_prefix_file_def Let_def close_socket_def
        send_bytes_def lock_def unlock_def t)
  show "sock_closed (snd (serve_request cv info w))"
    by (simp add: s bad_request_def send_prefix_file_def Let_def close_socket_def
        send_bytes_def lock_def unlock_def)
  show "badRequests (stats (snd (serve_request cv info w))) = badRequests (stats w) + 1"
    by (simp add: s bad_request_def send_prefix_file_def Let_def close_socket_def
        send_bytes_def lock_def unlock_def)
next
  assume a: "length (sock_in w) < 4 \<or> take 4 (sock_in w) = [0x31, 0x72, 0x10, 0x23]"
  show "badRequests (stats (snd (serve_request cv info w))) = badRequests (stats w)"
  proof (cases "length (sock_in w) < 4")
    case True
    then show ?thesis by (simp add: serve_request_def check_prefix_cases)
  next
    case False
    with a have "check_prefix cv w = (False, w\<lparr>sock_in := drop 4 (sock_in w)\<rparr>)"
      by (simp add: check_prefix_cases)
    from bad_serve_ok [OF this, of info] show ?thesis by simp
  qed
qed

theorem bad_prefix_at_any_request_witness:
  "4 \<le> length (sock_in (fresh_world [0, 0, 0, 0]))
   \<and> take 4 (sock_in (fresh_world [0, 0, 0, 0])) \<noteq> [0x31, 0x72, 0x10, 0x23]
   \<and> length (responsefile toy_cv) < 2 ^ 32
   \<and> sock_out (snd (serve_request toy_cv toy_info (fresh_world [0, 0, 0, 0])))
       = responsefile toy_cv
   \<and> badRequests (stats (snd (serve_request toy_cv toy_info (fresh_world [0, 0, 0, 0])))) = 1
   \<and> length (sock_in (fresh_world [])) < 4
   \<and> badRequests (stats (snd (serve_request toy_cv toy_info (fresh_world [])))) = 0"
  using bad_prefix_at_any_request [of "fresh_world [0, 0, 0, 0]" toy_cv toy_info]
    bad_prefix_at_any_request [of "fresh_world []" toy_cv toy_info]
  by (simp add: fresh_world_def toy_cv_def bytes_of_def)

section \<open>Properties of the client\<close>

subsection \<open>The buffer that \<open>create_request\<close> fills\<close>

lemma length_malloc [simp]: "length (malloc junk n) = n"
  by (simp add: malloc_def)

lemma memcpy_mid:
  "length pre = off \<Longrightarrow> length mid = length src \<Longrightarrow>
   memcpy (pre @ mid @ rest) off src = pre @ src @ rest"
  by (simp add: memcpy_def)

lemma list9: "length xs = 9 \<Longrightarrow> \<exists>a0 a1 a2 a3 a4 a5 a6 a7 a8. xs = [a0, a1, a2, a3, a4, a5, a6, a7, a8]"
  by (auto simp: length_Suc_conv numeral_eq_Suc)

lemma list4: "length xs = 4 \<Longrightarrow> \<exists>a0 a1 a2 a3. xs = [a0, a1, a2, a3]"
  by (auto simp: length_Suc_conv numeral_eq_Suc)

lemma write_header:
  assumes "9 \<le> length buf"
  shows "buf[0 := b0, 1 := b1, 2 := b2, 3 := b3, 4 := b4, 5 := b5, 6 := b6, 7 := b7, 8 := b8]
    = [b0, b1, b2, b3, b4, b5, b6, b7, b8] @ drop 9 buf"
proof -
  from assms have "length (take 9 buf) = 9" by simp
  from list9 [OF this] obtain a0 a1 a2 a3 a4 a5 a6 a7 a8
    where "take 9 buf = [a0, a1, a2, a3, a4, a5, a6, a7, a8]" by blast
  then have b: "buf = [a0, a1, a2, a3, a4, a5, a6, a7, a8] @ drop 9 buf"
    by (metis append_take_drop_id)
  show ?thesis
    by (subst b) (simp add: numeral_eq_Suc)
qed

lemma write_four:
  assumes "length pre = i" "4 \<le> length tail"
  shows "(pre @ tail)[i := c0, i + 1 := c1, i + 2 := c2, i + 3 := c3] = pre @ [c0, c1, c2, c3] @ drop 4 tail"
proof -
  from assms(2) have "length (take 4 tail) = 4" by simp
  from list4 [OF this] obtain a0 a1 a2 a3 where "take 4 tail = [a0, a1, a2, a3]"
    by blast
  then have t: "tail = [a0, a1, a2, a3] @ drop 4 tail"
    by (metis append_take_drop_id)
  show ?thesis
    using assms(1)
    by (subst t) (simp add: list_update_append numeral_eq_Suc)
qed

lemma fill_primary:
  assumes "9 + length imageOne \<le> length buf"
  shows "memcpy (buf[0 := b0, 1 := b1, 2 := b2, 3 := b3, 4 := b4, 5 := b5, 6 := b6, 7 := b7, 8 := b8]) 9 imageOne
    = [b0, b1, b2, b3, b4, b5, b6, b7, b8] @ imageOne @ drop (9 + length imageOne) buf"
proof -
  from assms have l: "9 \<le> length buf" by simp
  have d: "drop 9 buf = take (length imageOne) (drop 9 buf) @ drop (9 + length imageOne) buf"
    by (metis append_take_drop_id drop_drop add.commute)
  have "memcpy ([b0, b1, b2, b3, b4, b5, b6, b7, b8] @ take (length imageOne) (drop 9 buf) @ drop (9 + length imageOne) buf) 9 imageOne
     = [b0, b1, b2, b3, b4, b5, b6, b7, b8] @ imageOne @ drop (9 + length imageOne) buf"
    using assms by (intro memcpy_mid) simp_all
  then show ?thesis
    unfolding write_header [OF l] using d by simp
qed

lemmas client_consts = PREFIX_FOUR_def PREFIX_THREE_def PREFIX_TWO_def PREFIX_ONE_def
  MASK_def ONE_BYTE_def TWO_BYTES_def THREE_BYTES_def

lemma create_request_detect:
  "create_request junk imageOne imageTwo False = Inr (spec_request 0 imageOne imageTwo)"
proof -
  let ?buf = "malloc junk (9 + length imageOne)"
  let ?len = "word_of_nat (length imageOne) :: uint32"
  have "create_request junk imageOne imageTwo False =
      Inr (memcpy (?buf[0 := PREFIX_FOUR, 1 := PREFIX_THREE, 2 := PREFIX_TWO, 3 := PREFIX_ONE,
        4 := 0, 5 := ucast (?len AND MASK), 6 := ucast (drop_bit ONE_BYTE ?len AND MASK),
        7 := ucast (drop_bit TWO_BYTES ?len AND MASK),
        8 := ucast (drop_bit THREE_BYTES ?len AND MASK)]) 9 imageOne)"
    by (simp add: create_request_def Let_def PREIMAGE_SIZE_def)
  also have "\<dots> = Inr ([PREFIX_FOUR, PREFIX_THREE, PREFIX_TWO, PREFIX_ONE,
        0, ucast (?len AND MASK), ucast (drop_bit ONE_BYTE ?len AND MASK),
        ucast (drop_bit TWO_BYTES ?len AND MASK),
        ucast (drop_bit THREE_BYTES ?len AND MASK)] @ imageOne @ drop (9 + length imageOne) ?buf)"
    by (subst fill_primary) simp_all
  also have "\<dots> = Inr (spec_request 0 imageOne imageTwo)"
    by (simp add: spec_request_def htole32_def client_consts)
  finally show ?thesis .
qed

lemma sint_small: "n < 2 ^ 31 \<Longrightarrow> sint (word_of_nat n :: 32 word) = int n"
  by (simp add: signed_of_nat signed_take_bit_int_eq_self)

lemma create_request_replace:
  assumes "length imageOne + 13 \<le> 2147483647"
  shows "create_request junk imageOne imageTwo True = Inr (spec_request 1 imageOne imageTwo)"
proof -
  let ?i = "9 + length imageOne"
  let ?buf = "malloc junk (?i + (4 + length imageTwo))"
  let ?len = "word_of_nat (length imageOne) :: uint32"
  let ?len2 = "word_of_nat (length imageTwo) :: uint32"
  let ?hdr = "[PREFIX_FOUR, PREFIX_THREE, PREFIX_TWO, PREFIX_ONE,
        1, ucast (?len AND MASK), ucast (drop_bit ONE_BYTE ?len AND MASK),
        ucast (drop_bit TWO_BYTES ?len AND MASK),
        ucast (drop_bit THREE_BYTES ?len AND MASK)]"
  let ?c = "[ucast (?len2 AND MASK), ucast (drop_bit ONE_BYTE ?len2 AND MASK),
        ucast (drop_bit TWO_BYTES ?len2 AND MASK),
        ucast (drop_bit THREE_BYTES ?len2 AND MASK)]"
  from assms have s: "sint (word_of_nat ?i :: 32 word) = int ?i"
    by (intro sint_small) simp
  have n: "nat (9 + int (length imageOne)) = 9 + length imageOne" by arith
  have pre: "memcpy (?buf[0 := PREFIX_FOUR, 1 := PREFIX_THREE, 2 := PREFIX_TWO, 3 := PREFIX_ONE,
        4 := 1, 5 := ucast (?len AND MASK), 6 := ucast (drop_bit ONE_BYTE ?len AND MASK),
        7 := ucast (drop_bit TWO_BYTES ?len AND MASK),
        8 := ucast (drop_bit THREE_BYTES ?len AND MASK)]) 9 imageOne
      = (?hdr @ imageOne) @ drop ?i ?buf"
    by (subst fill_primary) simp_all
  have "create_request junk imageOne imageTwo True =
      Inr (memcpy (((?hdr @ imageOne) @ drop ?i ?buf)
        [?i := ucast (?len2 AND MASK), ?i + 1 := ucast (drop_bit ONE_BYTE ?len2 AND MASK),
         ?i + 2 := ucast (drop_bit TWO_BYTES ?len2 AND MASK),
         ?i + 3 := ucast (drop_bit THREE_BYTES ?len2 AND MASK)]) (?i + 4) imageTwo)"
    unfolding create_request_def Let_def PREIMAGE_SIZE_def if_True s pre
    using assms n by (simp add: INT_MAX_def del: list_update.simps append.simps)
  also have "((?hdr @ imageOne) @ drop ?i ?buf)
        [?i := ucast (?len2 AND MASK), ?i + 1 := ucast (drop_bit ONE_BYTE ?len2 AND MASK),
         ?i + 2 := ucast (drop_bit TWO_BYTES ?len2 AND MASK),
         ?i + 3 := ucast (drop_bit THREE_BYTES ?len2 AND MASK)]
      = (?hdr @ imageOne) @ ?c @ drop 4 (drop ?i ?buf)"
    by (intro write_four) simp_all
  also have "memcpy ((?hdr @ imageOne) @ ?c @ drop 4 (drop ?i ?buf)) (?i + 4) imageTwo
      = memcpy (((?hdr @ imageOne) @ ?c) @ drop 4 (drop ?i ?buf) @ []) (?i + 4) imageTwo"
    by simp
  also have "\<dots> = ((?hdr @ imageOne) @ ?c) @ imageTwo @ []"
    by (intro memcpy_mid) simp_all
  also have "Inr (((?hdr @ imageOne) @ ?c) @ imageTwo @ []) = (Inr (spec_request 1 imageOne imageTwo) :: fault + byte list)"
    by (simp add: spec_request_def htole32_def client_consts)
  finally show ?thesis .
qed


lemma drop_header:
  "length h = 4 \<Longrightarrow>
   drop (9 + length imageOne) (a # b # c # d # e # h @ imageOne @ tail) = tail"
proof -
  assume h: "length h = 4"
  let ?xs = "a # b # c # d # e # h @ imageOne"
  from h have l: "length ?xs = 9 + length imageOne" by simp
  have "drop (length ?xs) (?xs @ tail) = tail"
    by (simp only: drop_append drop_all order_refl diff_self_eq_0 drop_0 append_Nil)
  then show ?thesis unfolding l by simp
qed

subsection \<open>The layout of the request (C2)\<close>

text \<open>
  C2, as the claim states it, fails: for a primary image of \<open>2^32\<close> bytes and no replace
  file, the four length bytes of the request are \<open>00 00 00 00\<close>, which is the encoding
  of 0 and not of the length.
\<close>

theorem oversize_length_field_wraps:
  "create_request zero_heap (replicate 4294967296 0) [] False
     = Inr ([0x31, 0x72, 0x10, 0x23, 0] @ [0, 0, 0, 0] @ replicate 4294967296 0)
   \<and> unat (le32toh [0, 0, 0, 0]) \<noteq> 4294967296"
proof -
  have "(word_of_nat (length (replicate 4294967296 (0 :: byte))) :: uint32) = 0"
    by simp
  then have "spec_request 0 (replicate 4294967296 0) []
      = [0x31, 0x72, 0x10, 0x23, 0] @ [0, 0, 0, 0] @ replicate 4294967296 0"
    unfolding spec_request_def by (simp add: htole32_def)
  moreover have "unat (le32toh [0, 0, 0, 0]) \<noteq> 4294967296"
    by (simp add: le32toh_def)
  ultimately show ?thesis
    by (simp add: create_request_detect)
qed

text \<open>
  C2, amended. Whatever the fresh memory holds: without a replace file the request is the
  request of the specification for operation 0, of \<open>9 + len1\<close> bytes; with a replace file
  and a primary image of at most \<open>2^31 - 14\<close> bytes it is the one for operation 1, of
  \<open>9 + len1 + 4 + len2\<close> bytes. Each length field holds the low 32 bits of the length, so
  it reads back as the length for every image shorter than \<open>2^32\<close> bytes. (Nothing is
  said about a replace request with a longer primary image.)
\<close>

theorem create_request_layout:
  "create_request junk imageOne imageTwo False = Inr (spec_request 0 imageOne imageTwo)
   \<and> (length imageOne + 13 \<le> 2147483647
      \<longrightarrow> create_request junk imageOne imageTwo True = Inr (spec_request 1 imageOne imageTwo))
   \<and> length (spec_request 0 imageOne imageTwo) = 9 + length imageOne
   \<and> length (spec_request 1 imageOne imageTwo) = 9 + length imageOne + 4 + length imageTwo
   \<and> take 5 (spec_request (if replaceGiven then 1 else 0) imageOne imageTwo)
       = [0x31, 0x72, 0x10, 0x23, if replaceGiven then 1 else 0]
   \<and> (length imageOne < 2 ^ 32
      \<longrightarrow> unat (le32toh (take 4 (drop 5 (spec_request operation imageOne imageTwo))))
          = length imageOne)
   \<and> (length imageTwo < 2 ^ 32
      \<longrightarrow> unat (le32toh (take 4 (drop (9 + length imageOne)
                  (spec_request 1 imageOne imageTwo)))) = length imageTwo)"
proof (intro conjI impI)
  show "create_request junk imageOne imageTwo False = Inr (spec_request 0 imageOne imageTwo)"
    by (rule create_request_detect)
  show "create_request junk imageOne imageTwo True = Inr (spec_request 1 imageOne imageTwo)"
    if "length imageOne + 13 \<le> 2147483647"
    using that by (rule create_request_replace)
  show "length (spec_request 0 imageOne imageTwo) = 9 + length imageOne"
    by (simp add: spec_request_def)
  show "length (spec_request 1 imageOne imageTwo) = 9 + length imageOne + 4 + length imageTwo"
    by (simp add: spec_request_def)
  show "take 5 (spec_request (if replaceGiven then 1 else 0) imageOne imageTwo)
       = [0x31, 0x72, 0x10, 0x23, if replaceGiven then 1 else 0]"
    by (simp add: spec_request_def)
  show "unat (le32toh (take 4 (drop 5 (spec_request operation imageOne imageTwo))))
          = length imageOne"
    if "length imageOne < 2 ^ 32"
    using that by (simp add: spec_request_def le32toh_htole32 unat_of_nat take_bit_nat_eq_self)
  show "unat (le32toh (take 4 (drop (9 + length imageOne)
                  (spec_request 1 imageOne imageTwo)))) = length imageTwo"
    if "length imageTwo < 2 ^ 32"
    using that
    by (simp add: spec_request_def drop_header le32toh_htole32 unat_of_nat
        take_bit_nat_eq_self)
qed

theorem create_request_layout_witness:
  "create_request zero_heap [7] [8, 9] True
     = Inr [0x31, 0x72, 0x10, 0x23, 1, 1, 0, 0, 0, 7, 2, 0, 0, 0, 8, 9]
   \<and> create_request zero_heap [7] [8, 9] False = Inr [0x31, 0x72, 0x10, 0x23, 0, 1, 0, 0, 0, 7]
   \<and> length [7 :: byte] + 13 \<le> 2147483647
   \<and> length [7 :: byte] < 2 ^ 32
   \<and> length [8 :: byte, 9] < 2 ^ 32
   \<and> unat (le32toh (take 4 (drop 5 (spec_request 1 [7] [8, 9])))) = 1
   \<and> unat (le32toh (take 4 (drop (9 + length [7 :: byte]) (spec_request 1 [7] [8, 9])))) = 2"
  using create_request_layout [of zero_heap "[7]" "[8, 9]" True 1]
  by (simp add: spec_request_def htole32_def)


subsection \<open>Encoding, then decoding (C3)\<close>

text \<open>
  C3. The claim is broken by the client for replace requests with a primary image of 2 GiB
  or more: with \<open>2^31 - 9\<close> primary bytes, \<open>int index = PREIMAGE_SIZE + imageOne.length\<close>
  is negative and the second length is written in front of the buffer; no request is
  produced that the server could decode.
\<close>

theorem replace_request_of_2GiB_faults:
  "create_request zero_heap (replicate 2147483639 0) [1] True = Inl OutOfBounds"
proof -
  have "sint (word_of_nat (PREIMAGE_SIZE + length (replicate 2147483639 (0 :: byte)))
          :: 32 word) < 0"
    by (simp add: PREIMAGE_SIZE_def)
  then show ?thesis
    unfolding create_request_def Let_def by (simp only: if_True)
qed

text \<open>
  Below that size the round trip holds. A detect request with a non-empty primary image
  within the cap: the server's \<open>check_prefix\<close>, \<open>check_operation\<close>,
  \<open>determine_image_size\<close> and payload read, run in this order on the bytes of
  \<open>create_request\<close>, accept them, send nothing, and give back the operation, the length
  and the image.
\<close>

lemma roundtrip_detect:
  assumes "imageOne \<noteq> []" and "length imageOne < 2 ^ 32"
    and "info_maxSize info = 0 \<or> length imageOne \<le> unat (info_maxSize info)"
    and "create_request junk imageOne imageTwo False = Inr request"
    and "sock_in w = request @ rest"
  shows "check_prefix cv w = (False, w\<lparr>sock_in := drop 4 request @ rest\<rparr>)"
    and "check_operation (w\<lparr>sock_in := drop 4 request @ rest\<rparr>)
          = (0, w\<lparr>sock_in := drop 5 request @ rest\<rparr>)"
    and "determine_image_size info (w\<lparr>sock_in := drop 5 request @ rest\<rparr>)
          = (word_of_nat (length imageOne), w\<lparr>sock_in := imageOne @ rest\<rparr>)"
    and "read_bytes (unat (word_of_nat (length imageOne) :: uint32))
           (w\<lparr>sock_in := imageOne @ rest\<rparr>)
          = (Some imageOne, w\<lparr>sock_in := rest\<rparr>)"
proof -
  let ?n = "word_of_nat (length imageOne) :: uint32"
  from assms(4) have r: "request = [0x31, 0x72, 0x10, 0x23] @ 0 # htole32 ?n @ imageOne"
    by (simp add: create_request_detect spec_request_def)
  from assms(2) have u: "unat ?n = length imageOne"
    by (simp add: unat_of_nat take_bit_nat_eq_self)
  with assms(1) have nz: "?n \<noteq> 0"
    by (metis length_0_conv unat_0)
  from assms(3) u have cap: "\<not> (info_maxSize info \<noteq> 0 \<and> ?n > info_maxSize info)"
    by (auto simp: word_less_nat_alt)
  show "check_prefix cv w = (False, w\<lparr>sock_in := drop 4 request @ rest\<rparr>)"
    using assms(5) by (simp add: r check_prefix_cases)
  show "check_operation (w\<lparr>sock_in := drop 4 request @ rest\<rparr>)
          = (0, w\<lparr>sock_in := drop 5 request @ rest\<rparr>)"
    by (simp add: r check_operation_byte)
  show "determine_image_size info (w\<lparr>sock_in := drop 5 request @ rest\<rparr>)
          = (?n, w\<lparr>sock_in := imageOne @ rest\<rparr>)"
    using nz cap
    by (simp add: r determine_image_size_le [where rest = "imageOne @ rest"]
        check_image_size_def)
  show "read_bytes (unat ?n) (w\<lparr>sock_in := imageOne @ rest\<rparr>)
          = (Some imageOne, w\<lparr>sock_in := rest\<rparr>)"
    by (simp add: u read_bytes_def)
qed

text \<open>
  A replace request whose primary image has at most \<open>2^31 - 14\<close> bytes: the same four
  steps give operation 1 and the primary image, and \<open>recv_replacement\<close>, the read path of
  \<open>create_replacement\<close>, gives the secondary image.
\<close>

lemma roundtrip_replace:
  assumes "imageOne \<noteq> []" and "length imageOne + 13 \<le> 2147483647"
    and "imageTwo \<noteq> []" and "length imageTwo < 2 ^ 32"
    and "info_maxSize info = 0 \<or> length imageOne \<le> unat (info_maxSize info)"
    and "info_maxSize info = 0 \<or> length imageTwo \<le> unat (info_maxSize info)"
    and "create_request junk imageOne imageTwo True = Inr request"
    and "sock_in w = request @ rest"
  shows "check_prefix cv w = (False, w\<lparr>sock_in := drop 4 request @ rest\<rparr>)"
    and "check_operation (w\<lparr>sock_in := drop 4 request @ rest\<rparr>)
          = (1, w\<lparr>sock_in := drop 5 request @ rest\<rparr>)"
    and "determine_image_size info (w\<lparr>sock_in := drop 5 request @ rest\<rparr>)
          = (word_of_nat (length imageOne),
             w\<lparr>sock_in := drop 9 request @ rest\<rparr>)"
    and "read_bytes (unat (word_of_nat (length imageOne) :: uint32))
           (w\<lparr>sock_in := drop 9 request @ rest\<rparr>)
          = (Some imageOne, w\<lparr>sock_in := drop (9 + length imageOne) request @ rest\<rparr>)"
    and "recv_replacement info (w\<lparr>sock_in := drop (9 + length imageOne) request @ rest\<rparr>)
          = (Some imageTwo, w\<lparr>sock_in := rest\<rparr>)"
proof -
  let ?n = "word_of_nat (length imageOne) :: uint32"
  let ?m = "word_of_nat (length imageTwo) :: uint32"
  from assms(2,7)
  have r: "request = [0x31, 0x72, 0x10, 0x23] @ 1 # htole32 ?n @ imageOne
             @ htole32 ?m @ imageTwo"
    by (simp add: create_request_replace spec_request_def)
  from assms(2) have u: "unat ?n = length imageOne"
    by (simp add: unat_of_nat take_bit_nat_eq_self)
  from assms(4) have v: "unat ?m = length imageTwo"
    by (simp add: unat_of_nat take_bit_nat_eq_self)
  from u assms(1) have nz: "?n \<noteq> 0"
    by (metis length_0_conv unat_0)
  from v assms(3) have mz: "?m \<noteq> 0"
    by (metis length_0_conv unat_0)
  from assms(5) u have cap: "\<not> (info_maxSize info \<noteq> 0 \<and> ?n > info_maxSize info)"
    by (auto simp: word_less_nat_alt)
  from assms(6) v have cap2: "\<not> (info_maxSize info \<noteq> 0 \<and> ?m > info_maxSize info)"
    by (auto simp: word_less_nat_alt)
  show "check_prefix cv w = (False, w\<lparr>sock_in := drop 4 request @ rest\<rparr>)"
    using assms(8) by (simp add: r check_prefix_cases)
  show "check_operation (w\<lparr>sock_in := drop 4 request @ rest\<rparr>)
          = (1, w\<lparr>sock_in := drop 5 request @ rest\<rparr>)"
    by (simp add: r check_operation_byte)
  show "determine_image_size info (w\<lparr>sock_in := drop 5 request @ rest\<rparr>)
          = (?n, w\<lparr>sock_in := drop 9 request @ rest\<rparr>)"
    using nz cap
    by (simp add: r
        determine_image_size_le [where rest = "imageOne @ htole32 ?m @ imageTwo @ rest"]
        check_image_size_def)
  show "read_bytes (unat ?n) (w\<lparr>sock_in := drop 9 request @ rest\<rparr>)
          = (Some imageOne, w\<lparr>sock_in := drop (9 + length imageOne) request @ rest\<rparr>)"
    by (simp add: u r read_bytes_def drop_header)
  show "recv_replacement info (w\<lparr>sock_in := drop (9 + length imageOne) request @ rest\<rparr>)
          = (Some imageTwo, w\<lparr>sock_in := rest\<rparr>)"
    using mz cap2
    by (auto simp add: r drop_header recv_replacement_def Let_def
        read_bytes_append [where bs = "htole32 ?m" and rest = "imageTwo @ rest"]
        le32toh_htole32 check_image_size_def v read_bytes_def)
qed


subsection \<open>The output file (C10)\<close>

lemma check_files_ok:
  assumes "check_files params w = (None, w1)" and "outputFileNameGiven params"
  shows "files w1 (outputFileName params) = Some []"
    and "syscalls w1 = syscalls w
           @ (if detectFileGiven params then [OpenRead (detectFile params)] else [])
           @ (if replaceFileGiven params then [OpenRead (replaceFile params)] else [])
           @ [OpenWrite (outputFileName params)]"
  using assms
  by (auto simp: check_files_def fopen_r_def fopen_w_def split: if_splits bool.splits prod.splits)

lemma check_files_exit:
  "check_files params w = (Some c, w1) \<Longrightarrow> c = 13 \<or> c = 5"
  by (auto simp: check_files_def INPUT_FILE_ERROR_def OUTPUT_FILE_ERROR_def
      split: if_splits bool.splits prod.splits)

lemma client_read_bytes_frame:
  "client_read_bytes n w = (r, w') \<Longrightarrow> files w' = files w \<and> syscalls w' = syscalls w"
  by (auto simp: client_read_bytes_def split: if_splits)

lemma recieve_response_error:
  assumes "recieve_response params w = (Exit 11, w')"
  shows "files w' = files w \<and> syscalls w' = syscalls w"
  using assms
  by (fastforce simp: recieve_response_def COMMUNICATION_ERROR_def ERROR_MESSAGE_def
      split: prod.splits option.splits if_splits dest!: client_read_bytes_frame)

lemma read_image_file_frame:
  "read_image_file name w = (r, w') \<Longrightarrow> files w' = files w \<and> syscalls w' = syscalls w @ [OpenRead name]"
  by (auto simp: read_image_file_def fopen_r_def split: if_splits bool.splits)

lemma after_connect:
  assumes "(case (if detectFileGiven params then read_image_file (detectFile params) w2
                           else (Some (stdin w2), w2)) of
                       (None, w3) \<Rightarrow> (Crash, w3)
                     | (Some imageOne, w3) \<Rightarrow>
                         (case (if replaceFileGiven params
                                then read_image_file (replaceFile params) w3
                                else (Some [], w3)) of
                            (None, w4) \<Rightarrow> (Crash, w4)
                          | (Some imageTwo, w4) \<Rightarrow>
                              (case create_request (heap w4) imageOne imageTwo
                                      (replaceFileGiven params) of
                                 Inl f \<Rightarrow> (Crash, w4)
                               | Inr request \<Rightarrow>
                                   (case send_without_signals request w4 of
                                      (False, w5) \<Rightarrow> (Exit COMMUNICATION_ERROR, w5)
                                    | (True, w5) \<Rightarrow> recieve_response params w5)))) = (Exit 11, w')"
  shows "files w' = files w2 \<and> (\<exists>post. syscalls w' = syscalls w2 @ post)"
  using assms
  by (fastforce simp: send_without_signals_def COMMUNICATION_ERROR_def
      split: prod.splits option.splits if_splits sum.splits bool.splits
      dest!: read_image_file_frame recieve_response_error)


text \<open>
  C10. With \<open>--outputfilename\<close>, every run that ends with exit code 11 (the server
  answered with an operation-3 frame) has opened the output file for writing before it
  connected, after at most the two input files were opened for reading, and leaves the file
  empty.
\<close>

theorem output_file_truncated_before_connect:
  assumes parse: "client_parse_command_line argv = Inr params"
    and given: "outputFileNameGiven params"
    and run: "client_main argv w = (Exit 11, w')"
  shows "files w' (outputFileName params) = Some []
    \<and> (\<exists>pre post. syscalls w' = syscalls w @ pre
          @ [OpenWrite (outputFileName params), Connect (client_portnum params)] @ post
        \<and> (\<forall>e \<in> set pre. \<exists>name. e = OpenRead name))"


proof -
  from run parse obtain w1 where cf: "check_files params w = (None, w1)"
    by (auto simp: client_main_def split: prod.splits option.splits dest: check_files_exit)
  note ok = check_files_ok [OF cf given]
  let ?w2 = "w1\<lparr>syscalls := syscalls w1 @ [Connect (client_portnum params)]\<rparr>"
  from run parse cf have rest: "(case (if detectFileGiven params then read_image_file (detectFile params) ?w2
                           else (Some (stdin ?w2), ?w2)) of
                       (None, w3) \<Rightarrow> (Crash, w3)
                     | (Some imageOne, w3) \<Rightarrow>
                         (case (if replaceFileGiven params
                                then read_image_file (replaceFile params) w3
                                else (Some [], w3)) of
                            (None, w4) \<Rightarrow> (Crash, w4)
                          | (Some imageTwo, w4) \<Rightarrow>
                              (case create_request (heap w4) imageOne imageTwo
                                      (replaceFileGiven params) of
                                 Inl f \<Rightarrow> (Crash, w4)
                               | Inr request \<Rightarrow>
                                   (case send_without_signals request w4 of
                                      (False, w5) \<Rightarrow> (Exit COMMUNICATION_ERROR, w5)
                                    | (True, w5) \<Rightarrow> recieve_response params w5)))) = (Exit 11, w')"
    by (cases "listening w1 (client_portnum params)")
       (simp_all add: client_main_def client_check_port_def CLIENT_PORT_ERROR_def)
  from after_connect [OF rest] obtain post where
    f: "files w' = files w1" and s: "syscalls w' = syscalls w1 @ [Connect (client_portnum params)] @ post"
    by auto
  from f ok(1) have "files w' (outputFileName params) = Some []" by simp
  moreover
  let ?pre = "(if detectFileGiven params then [OpenRead (detectFile params)] else [])
           @ (if replaceFileGiven params then [OpenRead (replaceFile params)] else [])"
  have "syscalls w' = syscalls w @ ?pre @ [OpenWrite (outputFileName params), Connect (client_portnum params)] @ post"
    using s ok(2) by simp
  moreover have "\<forall>e \<in> set ?pre. \<exists>name. e = OpenRead name" by auto
  ultimately show ?thesis by blast
qed


lemma example_client_parse:
  "client_parse_command_line example_client_argv =
     Inr \<lparr>client_portnum = ''8080'', detectFileGiven = False, detectFile = [],
          replaceFileGiven = False, replaceFile = [],
          outputFileNameGiven = True, outputFileName = ''out.jpg''\<rparr>"
  by (simp add: client_parse_command_line_def example_client_argv_def)

lemma example_client_run:
  "fst (client_main example_client_argv example_client_world) = Exit 11"
  by (simp add: client_main_def example_client_parse check_files_def fopen_w_def
      client_check_port_def example_client_world_def create_request_detect
      send_without_signals_def recieve_response_def client_read_bytes_def le32toh_def
      PREFIX_def bytes_of_def ERROR_MESSAGE_def)

theorem output_file_truncated_before_connect_witness:
  "client_parse_command_line example_client_argv =
     Inr \<lparr>client_portnum = ''8080'', detectFileGiven = False, detectFile = [],
          replaceFileGiven = False, replaceFile = [],
          outputFileNameGiven = True, outputFileName = ''out.jpg''\<rparr>
   \<and> fst (client_main example_client_argv example_client_world) = Exit 11
   \<and> files example_client_world ''out.jpg'' = Some [1, 2, 3]
   \<and> files (snd (client_main example_client_argv example_client_world)) ''out.jpg'' = Some []"
proof -
  have r: "client_main example_client_argv example_client_world =
     (Exit 11, snd (client_main example_client_argv example_client_world))"
    using example_client_run by (metis prod.collapse)
  from output_file_truncated_before_connect [OF example_client_parse _ r]
    example_client_parse example_client_run
  show ?thesis
    by (simp add: example_client_world_def)
qed

section \<open>The counters of clients (C8)\<close>

subsection \<open>What a worker does to the counters\<close>

lemma clients_execute_replacement:
  "execute_replacement cv info frame faces w = (r, w') \<Longrightarrow>
   currClients (stats w') = currClients (stats w) \<and> prevClients (stats w') = prevClients (stats w)"
  by (fastforce simp: execute_replacement_def replace_face_def Let_def
      split: prod.splits option.splits dest!: stats_create_replacement)

lemma clients_image_executor:
  "image_executor cv info im sz operation w = (r, w') \<Longrightarrow>
   currClients (stats w') = currClients (stats w) \<and> prevClients (stats w') = prevClients (stats w)"
  by (fastforce simp: image_executor_def Let_def split: prod.splits option.splits if_splits
      dest!: clients_execute_replacement stats_find_faces stats_create_frame stats_draw_faces)

lemma clients_check_prefix:
  "check_prefix cv w = (r, w') \<Longrightarrow>
   currClients (stats w') = currClients (stats w) \<and> prevClients (stats w') = prevClients (stats w)"
  by (auto simp: check_prefix_cases bad_request_def send_prefix_file_def Let_def
      lock_def unlock_def close_socket_def send_bytes_def split: if_splits)

lemma clients_serve_request:
  "currClients (stats (snd (serve_request cv info w))) = currClients (stats w)
   \<and> prevClients (stats (snd (serve_request cv info w))) = prevClients (stats w)"
  by (fastforce simp: serve_request_def split: prod.splits option.splits bool.splits if_splits
     dest!: stats_check_operation stats_determine_image_size clients_image_executor
       stats_read_bytes clients_check_prefix)

lemma clients_task_loop:
  "currClients (stats (task_loop cv info w)) = currClients (stats w)
   \<and> prevClients (stats (task_loop cv info w)) = prevClients (stats w)"
proof (induction cv info w rule: task_loop.induct)
  case (1 cv info w)
  show ?case
  proof (cases "fst (serve_request cv info w)")
    case True
    with "1.IH" clients_serve_request [of cv info w] show ?thesis
      by (simp add: task_loop_go)
  next
    case False
    with clients_serve_request [of cv info w] show ?thesis
      by (simp add: task_loop_stop)
  qed
qed

lemma worker_exit_counts:
  "currClients (stats (task_executor cv info w)) = currClients (stats w) - 1
   \<and> prevClients (stats (task_executor cv info w)) = prevClients (stats w) + 1"
  using clients_task_loop [of cv info w]
  by (simp add: task_executor_def update_client_stats_def stats_client_exit_def sem_post_def
      lock_def unlock_def Let_def)

text \<open>The exit path of a worker, in the order of \<open>update_client_stats\<close>.\<close>

lemma update_client_stats_locked:
  "events (update_client_stats w) = events w @ [Lock StatsLock, Unlock StatsLock]
   \<and> stats (update_client_stats w)
       = (stats w)\<lparr>currClients := currClients (stats w) - 1,
                    prevClients := prevClients (stats w) + 1\<rparr>"
  by (simp add: update_client_stats_def stats_client_exit_def lock_def unlock_def Let_def)

lemma count_update:
  "i < length xs \<Longrightarrow>
   length (filter P (xs[i := y])) + (if P (xs ! i) then 1 else 0)
     = length (filter P xs) + (if P y then 1 else 0)"
proof (induction xs arbitrary: i)
  case Nil
  then show ?case by simp
next
  case (Cons a xs)
  then show ?case by (cases i) auto
qed

lemma count_same:
  "i < length xs \<Longrightarrow> P (xs ! i) = P y \<Longrightarrow>
   length (filter P (xs[i := y])) = length (filter P xs)"
  using count_update [of i xs P y] by (simp split: if_splits)

lemma count_up:
  "i < length xs \<Longrightarrow> \<not> P (xs ! i) \<Longrightarrow> P y \<Longrightarrow>
   length (filter P (xs[i := y])) = Suc (length (filter P xs))"
  using count_update [of i xs P y] by simp

lemma count_below:
  "i < length xs \<Longrightarrow> \<not> P (xs ! i) \<Longrightarrow> length (filter P xs) < length xs"
  using length_filter_less [of "xs ! i" xs P] by simp

subsection \<open>The owner of the statistics mutex\<close>

lemma holder_ok_init: "holder_ok (server_init limit)"
  by (simp add: holder_ok_def server_init_def)

lemma holder_ok_step:
  assumes "server_step limit t s s'" and "holder_ok s"
  shows "holder_ok s'"
  using assms
  apply (cases rule: server_step.cases)
  apply (simp_all add: holder_ok_def nth_list_update nth_append)
  apply fastforce+
  apply (metis option.inject thread.inject option.distinct thread.distinct worker_critical.simps)+
  done

lemma holder_ok_reachable: "reachable limit s \<Longrightarrow> holder_ok s"
  by (induction rule: reachable.induct) (auto intro: holder_ok_init holder_ok_step)

subsection \<open>The counters along the steps\<close>

lemmas count_defs = counts_ok_def uncounted_def counted_def decremented_def completed_def

lemma counts_ok_init: "counts_ok (server_init limit)"
  by (simp add: count_defs server_init_def)

lemma counts_ok_step:
  assumes st: "server_step limit t s s'" and ok: "counts_ok s"
  shows "counts_ok s'"
  using st
proof (cases rule: server_step.cases)
  case acceptor_count
  let ?d = "length (filter past_decrement (workers s))"
  let ?n = "accepted s + failed s"
  have d: "?d \<le> length (workers s)" by simp
  from ok acceptor_count
  have w: "length (workers s) \<le> ?n - 1" and n: "1 \<le> ?n"
    and c: "currClients (srv_stats s) = word_of_nat (?n - Suc ?d)"
    and p: "prevClients (srv_stats s) = word_of_nat (completed s)"
    by (simp_all add: count_defs del: of_nat_diff)
  from d w n have "?n - ?d = Suc (?n - Suc ?d)" by linarith
  then have "(word_of_nat (?n - ?d) :: uint32) = word_of_nat (?n - Suc ?d) + 1" by simp
  with c have c': "currClients (srv_stats s) + 1 = word_of_nat (?n - ?d)" by simp
  from w n have w': "Suc (length (workers s)) \<le> ?n" by linarith
  from c' w' p acceptor_count show ?thesis
    by (simp add: count_defs stats_accept_def del: of_nat_diff)
next
  case (worker_exit_decr i)
  let ?d = "length (filter past_decrement (workers s))"
  from worker_exit_decr have "?d < length (workers s)"
    using count_below [of i "workers s" past_decrement] by simp
  with ok have "Suc ?d \<le> counted s"
    by (simp add: counts_ok_def split: if_splits)
  then have "counted s - ?d = Suc (counted s - Suc ?d)"
    by simp
  then have "(word_of_nat (counted s - ?d) :: uint32) - 1 = word_of_nat (counted s - Suc ?d)"
    by simp
  moreover from worker_exit_decr have "counted s' = counted s" and "uncounted s' = uncounted s"
    by (simp_all add: counted_def uncounted_def)
  moreover from worker_exit_decr have "decremented s' = Suc ?d" and "completed s' = completed s"
    by (simp_all add: decremented_def completed_def count_same count_up)
  ultimately show ?thesis
    using ok worker_exit_decr
    by (simp add: counts_ok_def decremented_def del: of_nat_diff)
qed (use ok in \<open>simp_all add: count_defs count_same count_up stats_accept_def stats_count_def
      split: counter.splits\<close>)

lemma counts_ok_reachable: "reachable limit s \<Longrightarrow> counts_ok s"
  by (induction rule: reachable.induct) (auto intro: counts_ok_init counts_ok_step)

lemma free_mutex:
  assumes "holder_ok s" and "stats_owner s = None"
  shows "acc_pc s \<noteq> A_incr" and "decremented s = completed s"
proof -
  from assms show "acc_pc s \<noteq> A_incr"
    by (auto simp add: holder_ok_def)
  have "past_decrement p = past_increment p" if "p \<in> set (workers s)" for p
  proof -
    from that obtain i where "i < length (workers s)" and "workers s ! i = p"
      by (auto simp add: in_set_conv_nth)
    with assms have "\<not> worker_critical p"
      by (auto simp add: holder_ok_def)
    then show ?thesis by (cases p) simp_all
  qed
  then have "filter past_decrement (workers s) = filter past_increment (workers s)"
    by (simp cong: filter_cong)
  then show "decremented s = completed s"
    by (simp add: decremented_def completed_def)
qed

lemma counters_sum:
  assumes "reachable limit s" and "stats_owner s = None" and "acc_pc s \<noteq> A_lock"
    and "failed s = 0"
  shows "currClients (srv_stats s) + prevClients (srv_stats s) = word_of_nat (accepted s)"
    and "accepted s < 2 ^ 32 \<Longrightarrow>
         unat (currClients (srv_stats s)) + unat (prevClients (srv_stats s)) = accepted s"
proof -
  note free = free_mutex [OF holder_ok_reachable [OF assms(1)] assms(2)]
  from free(1) assms(3,4) have c: "counted s = accepted s"
    by (simp add: counted_def uncounted_def)
  have "completed s \<le> length (workers s)"
    by (simp add: completed_def)
  with counts_ok_reachable [OF assms(1)] c
  have le: "completed s \<le> accepted s"
    and cur: "currClients (srv_stats s) = word_of_nat (accepted s - completed s)"
    and prev: "prevClients (srv_stats s) = word_of_nat (completed s)"
    by (simp_all add: counts_ok_def free(2) split: if_splits del: of_nat_diff)
  from cur prev have "currClients (srv_stats s) + prevClients (srv_stats s)
      = word_of_nat ((accepted s - completed s) + completed s)"
    by (simp del: of_nat_diff)
  with le show "currClients (srv_stats s) + prevClients (srv_stats s) = word_of_nat (accepted s)"
    by simp
  assume small: "accepted s < 2 ^ 32"
  with le cur have "unat (currClients (srv_stats s)) = accepted s - completed s"
    by (simp add: unat_of_nat take_bit_nat_eq_self del: of_nat_diff)
  moreover from small le prev have "unat (prevClients (srv_stats s)) = completed s"
    by (simp add: unat_of_nat take_bit_nat_eq_self)
  ultimately show "unat (currClients (srv_stats s)) + unat (prevClients (srv_stats s))
      = accepted s"
    using le by simp
qed

lemma updates_under_mutex:
  assumes "reachable limit s" and "server_step limit t s s'"
    and "srv_stats s' \<noteq> srv_stats s"
  shows "stats_owner s = Some t \<and> stats_owner s' = Some t"
proof -
  note h = holder_ok_reachable [OF assms(1)]
  from assms(2,3) h show ?thesis
    by (cases rule: server_step.cases) (auto simp add: holder_ok_def)
qed

subsection \<open>Runs of the server\<close>

lemma come_and_go: "reachable 0 (served n)"
proof (induction n)
  case 0
  have "reachable 0 (server_init 0)" by (rule reachable.start)
  then show ?case by (simp add: server_init_def served_def)
next
  case (Suc n)
  define st where "st = (\<lambda>p holder c ws a.
     \<lparr>srv_stats = \<lparr>currClients = c, prevClients = word_of_nat n, faceDetections = 0,
                   faceReplacements = 0, badRequests = 0\<rparr>,
      stats_owner = holder, sem = 0, acc_pc = p, rep_pc = R_sigwait,
      workers = replicate n W_done @ ws, accepted = a, failed = 0\<rparr>)"
  from Suc have r0: "reachable 0 (st A_sem_wait None 0 [] n)"
    by (simp add: st_def served_def)
  have r1: "reachable 0 (st A_accept None 0 [] n)"
    using reachable.step [OF r0 server_step.acceptor_no_semaphore]
    by (simp add: st_def)
  have r2: "reachable 0 (st A_lock None 0 [] (Suc n))"
    using reachable.step [OF r1 server_step.accept_connection]
    by (simp add: st_def)
  have r3: "reachable 0 (st A_incr (Some Acceptor) 0 [] (Suc n))"
    using reachable.step [OF r2 server_step.acceptor_lock]
    by (simp add: st_def)
  have r4: "reachable 0 (st A_unlock (Some Acceptor) 1 [] (Suc n))"
    using reachable.step [OF r3 server_step.acceptor_count]
    by (simp add: st_def stats_accept_def)
  have r5: "reachable 0 (st A_create None 1 [] (Suc n))"
    using reachable.step [OF r4 server_step.acceptor_unlock]
    by (simp add: st_def)
  have r6: "reachable 0 (st A_sem_wait None 1 [W_loop] (Suc n))"
    using reachable.step [OF r5 server_step.worker_created]
    by (simp add: st_def)
  have r7: "reachable 0 (st A_sem_wait None 1 [W_sem_post] (Suc n))"
    using reachable.step [OF r6 server_step.worker_break [of n]]
    by (simp add: st_def nth_append list_update_append)
  have r8: "reachable 0 (st A_sem_wait None 1 [W_exit_lock] (Suc n))"
    using reachable.step [OF r7 server_step.worker_sem_post [of n]]
    by (simp add: st_def nth_append list_update_append)
  have r9: "reachable 0 (st A_sem_wait (Some (Worker n)) 1 [W_exit_decr] (Suc n))"
    using reachable.step [OF r8 server_step.worker_exit_lock [of n]]
    by (simp add: st_def nth_append list_update_append)
  have r10: "reachable 0 (st A_sem_wait (Some (Worker n)) 0 [W_exit_incr] (Suc n))"
    using reachable.step [OF r9 server_step.worker_exit_decr [of n]]
    by (simp add: st_def nth_append list_update_append)
  have r11: "reachable 0
     ((st A_sem_wait (Some (Worker n)) 0 [W_exit_unlock] (Suc n))
        \<lparr>srv_stats := \<lparr>currClients = 0, prevClients = word_of_nat (Suc n), faceDetections = 0,
                   faceReplacements = 0, badRequests = 0\<rparr>\<rparr>)"
    using reachable.step [OF r10 server_step.worker_exit_incr [of n]]
    by (simp add: st_def nth_append list_update_append add.commute)
  have r12: "reachable 0
     ((st A_sem_wait None 0 [W_done] (Suc n))
        \<lparr>srv_stats := \<lparr>currClients = 0, prevClients = word_of_nat (Suc n), faceDetections = 0,
                   faceReplacements = 0, badRequests = 0\<rparr>\<rparr>)"
    using reachable.step [OF r11 server_step.worker_exit_unlock [of n]]
    by (simp add: st_def nth_append list_update_append)
  then show ?case
    by (simp add: st_def served_def replicate_append_same)
qed

lemma first_accept_pending: "reachable 5 (first_client A_lock None 0 [])"
proof -
  have r0: "reachable 5 (server_init 5)" by (rule reachable.start)
  have r1: "reachable 5 ((server_init 5)\<lparr>sem := 4, acc_pc := A_accept\<rparr>)"
    using reachable.step [OF r0 server_step.acceptor_sem_wait]
    by (simp add: server_init_def)
  show ?thesis
    using reachable.step [OF r1 server_step.accept_connection]
    by (simp add: server_init_def first_client_def)
qed

lemma first_accept_locked: "reachable 5 (first_client A_incr (Some Acceptor) 0 [])"
  using reachable.step [OF first_accept_pending server_step.acceptor_lock]
  by (simp add: first_client_def)

lemma first_accept_count:
  "server_step 5 Acceptor (first_client A_incr (Some Acceptor) 0 [])
     (first_client A_unlock (Some Acceptor) 1 [])"
  using server_step.acceptor_count [of "first_client A_incr (Some Acceptor) 0 []" 5]
  by (simp add: first_client_def stats_accept_def)

lemma first_accept_done: "reachable 5 one_client_server"
proof -
  have r4: "reachable 5 (first_client A_unlock (Some Acceptor) 1 [])"
    using reachable.step [OF first_accept_locked first_accept_count] .
  have r5: "reachable 5 (first_client A_create None 1 [])"
    using reachable.step [OF r4 server_step.acceptor_unlock]
    by (simp add: first_client_def)
  show ?thesis
    using reachable.step [OF r5 server_step.worker_created]
    by (simp add: first_client_def one_client_server_def)
qed

lemma first_exit_halfway:
  "reachable 5 ((first_client A_sem_wait (Some (Worker 0)) 0 [W_exit_incr])\<lparr>sem := 5\<rparr>)"
proof -
  have r7: "reachable 5 (first_client A_sem_wait None 1 [W_sem_post])"
    using reachable.step [OF first_accept_done server_step.worker_break [of 0]]
    by (simp add: first_client_def one_client_server_def)
  have r8: "reachable 5 ((first_client A_sem_wait None 1 [W_exit_lock])\<lparr>sem := 5\<rparr>)"
    using reachable.step [OF r7 server_step.worker_sem_post [of 0]]
    by (simp add: first_client_def)
  have r9: "reachable 5
      ((first_client A_sem_wait (Some (Worker 0)) 1 [W_exit_decr])\<lparr>sem := 5\<rparr>)"
    using reachable.step [OF r8 server_step.worker_exit_lock [of 0]]
    by (simp add: first_client_def)
  show ?thesis
    using reachable.step [OF r9 server_step.worker_exit_decr [of 0]]
    by (simp add: first_client_def)
qed

text \<open>
  \<open>new_connection\<close> does not test what \<open>accept\<close> returns: a call that fails is counted
  in \<open>currClients\<close> like a connection, and the worker created for it moves the count to
  \<open>prevClients\<close>.
\<close>

lemma failed_accept_is_counted:
  "reachable 0 failed_accept_server
   \<and> stats_owner failed_accept_server = None
   \<and> acc_pc failed_accept_server = A_sem_wait
   \<and> accepted failed_accept_server = 0
   \<and> prevClients (srv_stats failed_accept_server) = 1"
proof -
  define st where "st = (\<lambda>p holder c pr ws.
     \<lparr>srv_stats = \<lparr>currClients = c, prevClients = pr, faceDetections = 0,
                   faceReplacements = 0, badRequests = 0\<rparr>,
      stats_owner = holder, sem = 0, acc_pc = p, rep_pc = R_sigwait,
      workers = ws, accepted = 0, failed = Suc 0\<rparr>)"
  have r0: "reachable 0 (server_init 0)" by (rule reachable.start)
  have r1: "reachable 0 ((server_init 0)\<lparr>acc_pc := A_accept\<rparr>)"
    using reachable.step [OF r0 server_step.acceptor_no_semaphore]
    by (simp add: server_init_def)
  have r2: "reachable 0 (st A_lock None 0 0 [])"
    using reachable.step [OF r1 server_step.accept_fails]
    by (simp add: st_def server_init_def)
  have r3: "reachable 0 (st A_incr (Some Acceptor) 0 0 [])"
    using reachable.step [OF r2 server_step.acceptor_lock]
    by (simp add: st_def)
  have r4: "reachable 0 (st A_unlock (Some Acceptor) 1 0 [])"
    using reachable.step [OF r3 server_step.acceptor_count]
    by (simp add: st_def stats_accept_def)
  have r5: "reachable 0 (st A_create None 1 0 [])"
    using reachable.step [OF r4 server_step.acceptor_unlock]
    by (simp add: st_def)
  have r6: "reachable 0 (st A_sem_wait None 1 0 [W_loop])"
    using reachable.step [OF r5 server_step.worker_created]
    by (simp add: st_def)
  have r7: "reachable 0 (st A_sem_wait None 1 0 [W_sem_post])"
    using reachable.step [OF r6 server_step.worker_break [of 0]]
    by (simp add: st_def)
  have r8: "reachable 0 (st A_sem_wait None 1 0 [W_exit_lock])"
    using reachable.step [OF r7 server_step.worker_sem_post [of 0]]
    by (simp add: st_def)
  have r9: "reachable 0 (st A_sem_wait (Some (Worker 0)) 1 0 [W_exit_decr])"
    using reachable.step [OF r8 server_step.worker_exit_lock [of 0]]
    by (simp add: st_def)
  have r10: "reachable 0 (st A_sem_wait (Some (Worker 0)) 0 0 [W_exit_incr])"
    using reachable.step [OF r9 server_step.worker_exit_decr [of 0]]
    by (simp add: st_def)
  have r11: "reachable 0 (st A_sem_wait (Some (Worker 0)) 0 1 [W_exit_unlock])"
    using reachable.step [OF r10 server_step.worker_exit_incr [of 0]]
    by (simp add: st_def)
  have r12: "reachable 0 (st A_sem_wait None 0 1 [W_done])"
    using reachable.step [OF r11 server_step.worker_exit_unlock [of 0]]
    by (simp add: st_def)
  then show ?thesis
    by (simp add: st_def failed_accept_server_def)
qed


text \<open>
  C8, as the claim states it, fails in three kinds of reachable states: after \<open>2^32\<close>
  connections were accepted and their workers have finished, both counters are 0 again;
  when \<open>accept\<close> has returned the first connection and the acceptor has not yet executed
  \<open>currClients++\<close>, both counters are 0 and one connection is accepted; and when the first
  worker stands between \<open>currClients--\<close> and \<open>prevClients++\<close> in its critical section,
  both counters are 0 again.
\<close>

theorem client_counters_off_accepted:
  "reachable 0 wrapped_server
   \<and> stats_owner wrapped_server = None
   \<and> acc_pc wrapped_server = A_sem_wait
   \<and> failed wrapped_server = 0
   \<and> unat (currClients (srv_stats wrapped_server))
       + unat (prevClients (srv_stats wrapped_server))
      \<noteq> accepted wrapped_server
   \<and> reachable 5 pending_server
   \<and> failed pending_server = 0
   \<and> unat (currClients (srv_stats pending_server))
       + unat (prevClients (srv_stats pending_server))
      \<noteq> accepted pending_server
   \<and> reachable 5 half_exited_server
   \<and> failed half_exited_server = 0
   \<and> unat (currClients (srv_stats half_exited_server))
       + unat (prevClients (srv_stats half_exited_server))
      \<noteq> accepted half_exited_server"
proof -
  have "reachable 0 (served 4294967296)" by (rule come_and_go)
  then have "reachable 0 wrapped_server" by (simp only: wrapped_server_def)
  moreover have "prevClients (srv_stats wrapped_server) = 0"
    and "currClients (srv_stats wrapped_server) = 0"
    and "accepted wrapped_server = 4294967296"
    and "stats_owner wrapped_server = None"
    and "acc_pc wrapped_server = A_sem_wait"
    and "failed wrapped_server = 0"
    by (simp_all add: wrapped_server_def served_def)
  moreover from first_accept_pending have "reachable 5 pending_server"
    by (simp only: pending_server_def)
  moreover from first_exit_halfway have "reachable 5 half_exited_server"
    by (simp only: half_exited_server_def)
  ultimately show ?thesis
    by (simp add: pending_server_def half_exited_server_def first_client_def)
qed

text \<open>
  C8, amended. In every reachable state of the acceptor, the workers and the reporter, for
  every admission limit, \<open>currClients\<close> is, modulo \<open>2^32\<close> (the counters are \<open>uint32_t\<close>),
  the number of returns of \<open>accept\<close> for which the acceptor has executed \<open>currClients++\<close>
  less the number of workers that have executed \<open>currClients--\<close>, and \<open>prevClients\<close> is the
  number of workers that have executed \<open>prevClients++\<close>. So in every reachable state in which
  no thread holds \<open>statsLock\<close>, the acceptor does not stand between \<open>accept\<close> and its
  critical section, and no call of \<open>accept\<close> has failed, \<open>currClients + prevClients\<close> equals
  the number of accepted connections modulo \<open>2^32\<close>, and equals it exactly while fewer than
  \<open>2^32\<close> connections have been accepted. Every step that changes the statistics is made by
  the thread that owns \<open>statsLock\<close>, before and after the step. A worker, whatever it
  receives, decrements \<open>currClients\<close> and increments \<open>prevClients\<close> once.
\<close>

theorem client_counters_invariant:
  assumes "reachable limit s"
  shows "decremented s \<le> counted s
    \<and> currClients (srv_stats s) = word_of_nat (counted s - decremented s)
    \<and> prevClients (srv_stats s) = word_of_nat (completed s)
    \<and> (stats_owner s = None \<and> acc_pc s \<noteq> A_lock \<and> failed s = 0 \<longrightarrow>
         currClients (srv_stats s) + prevClients (srv_stats s) = word_of_nat (accepted s)
         \<and> (accepted s < 2 ^ 32 \<longrightarrow>
              unat (currClients (srv_stats s)) + unat (prevClients (srv_stats s))
                = accepted s))
    \<and> (server_step limit t s u \<and> srv_stats u \<noteq> srv_stats s \<longrightarrow>
         stats_owner s = Some t \<and> stats_owner u = Some t)
    \<and> currClients (stats (task_executor cv info w)) = currClients (stats w) - 1
    \<and> prevClients (stats (task_executor cv info w)) = prevClients (stats w) + 1"
proof -
  have "decremented s \<le> length (workers s)"
    by (simp add: decremented_def)
  with counts_ok_reachable [OF assms]
  have "decremented s \<le> counted s"
    and "currClients (srv_stats s) = word_of_nat (counted s - decremented s)"
    and "prevClients (srv_stats s) = word_of_nat (completed s)"
    by (simp_all add: counts_ok_def split: if_splits del: of_nat_diff)
  with counters_sum [OF assms] updates_under_mutex [OF assms, of t u]
    worker_exit_counts [of cv info w]
  show ?thesis by blast
qed

theorem client_counters_invariant_witness:
  "reachable 5 one_client_server
   \<and> stats_owner one_client_server = None
   \<and> acc_pc one_client_server = A_sem_wait
   \<and> failed one_client_server = 0
   \<and> accepted one_client_server = 1
   \<and> unat (currClients (srv_stats one_client_server))
       + unat (prevClients (srv_stats one_client_server)) = accepted one_client_server
   \<and> reachable 5 (first_client A_incr (Some Acceptor) 0 [])
   \<and> server_step 5 Acceptor (first_client A_incr (Some Acceptor) 0 [])
        (first_client A_unlock (Some Acceptor) 1 [])
   \<and> currClients (srv_stats (first_client A_incr (Some Acceptor) 0 [])) = 0
   \<and> currClients (srv_stats (first_client A_unlock (Some Acceptor) 1 [])) = 1
   \<and> stats_owner (first_client A_incr (Some Acceptor) 0 []) = Some Acceptor
   \<and> stats_owner (first_client A_unlock (Some Acceptor) 1 []) = Some Acceptor"
proof -
  have quiet: "stats_owner one_client_server = None" "acc_pc one_client_server = A_sem_wait"
    "failed one_client_server = 0" "accepted one_client_server = 1"
    by (simp_all add: one_client_server_def first_client_def)
  have changed: "srv_stats (first_client A_unlock (Some Acceptor) 1 [])
      \<noteq> srv_stats (first_client A_incr (Some Acceptor) 0 [])"
    by (simp add: first_client_def)
  from client_counters_invariant [OF first_accept_done, of Acceptor one_client_server
      toy_cv toy_info "fresh_world []"]
  have "stats_owner one_client_server = None \<and> acc_pc one_client_server \<noteq> A_lock
      \<and> failed one_client_server = 0 \<longrightarrow>
      (accepted one_client_server < 2 ^ 32 \<longrightarrow>
        unat (currClients (srv_stats one_client_server))
          + unat (prevClients (srv_stats one_client_server)) = accepted one_client_server)"
    by blast
  with quiet
  have "unat (currClients (srv_stats one_client_server))
       + unat (prevClients (srv_stats one_client_server)) = accepted one_client_server"
    by simp
  moreover from client_counters_invariant [OF first_accept_locked, of Acceptor
      "first_client A_unlock (Some Acceptor) 1 []" toy_cv toy_info "fresh_world []"]
    first_accept_count changed
  have "stats_owner (first_client A_incr (Some Acceptor) 0 []) = Some Acceptor
      \<and> stats_owner (first_client A_unlock (Some Acceptor) 1 []) = Some Acceptor"
    by blast
  moreover have "currClients (srv_stats (first_client A_incr (Some Acceptor) 0 [])) = 0"
    and "currClients (srv_stats (first_client A_unlock (Some Acceptor) 1 [])) = 1"
    by (simp_all add: first_client_def)
  ultimately show ?thesis
    using quiet first_accept_done first_accept_locked first_accept_count by simp
qed

section \<open>The cascade mutex (C9)\<close>

subsection \<open>The history of one worker\<close>

lemma thread_run_append:
  "thread_run s (h @ es) = (case thread_run s h of None \<Rightarrow> None | Some s' \<Rightarrow> thread_run s' es)"
  by (induction h arbitrary: s) (auto split: option.splits)

lemma events_basic [simp]:
  "events (lock m w) = events w @ [Lock m]"
  "events (unlock m w) = events w @ [Unlock m]"
  "events (cvHaarDetectObjects w) = events w @ [DetectorEnter, DetectorExit]"
  "events (send_bytes bs w) = events w" "events (close_socket w) = events w"
  "events (send_output operation out sz w) = events w"
  "events (error_reply msg w) = events w"
  "events (sem_post w) = events w"
  by (simp_all add: lock_def unlock_def send_bytes_def close_socket_def
      cvHaarDetectObjects_def send_output_def error_reply_def sem_post_def)

lemma events_replies [simp]:
  "events (invalid_message w) = events w" "events (wrong_operation w) = events w"
  "events (invalid_image w) = events w" "events (no_faces w) = events w"
  by (simp_all add: invalid_message_def wrong_operation_def invalid_image_def no_faces_def)

lemma calm_settled: "calm w \<Longrightarrow> settled w"
  by (simp add: calm_def settled_def)

lemma calm_events: "events w' = events w \<Longrightarrow> calm w' = calm w"
  by (simp add: calm_def)

lemma calm_bracket:
  "events w' = events w @ [Lock m, Unlock m] \<Longrightarrow> calm w \<Longrightarrow> calm w'"
  by (simp add: calm_def thread_run_append idle_def)

lemma calm_detect:
  "events w' = events w @ [Lock CascadeLock, DetectorEnter, DetectorExit, Unlock CascadeLock] \<Longrightarrow> calm w \<Longrightarrow> calm w'"
  by (simp add: calm_def thread_run_append idle_def)

lemma calm_read_bytes: "read_bytes n w = (r, w') \<Longrightarrow> calm w' = calm w"
  by (auto simp: read_bytes_def calm_def split: if_splits)

lemma calm_output: "calm w \<Longrightarrow> calm (output_face_detection cv frame w)"
  by (rule calm_bracket [where m = FileLock]) (simp_all add: output_face_detection_def Let_def)

lemma calm_bad_request: "calm w \<Longrightarrow> calm (bad_request cv w)"
  by (rule calm_bracket [where m = StatsLock]) (simp_all add: bad_request_def send_prefix_file_def Let_def lock_def unlock_def close_socket_def send_bytes_def)

lemma calm_create_frame: "create_frame cv im sz w = (r, w') \<Longrightarrow> calm w \<Longrightarrow> calm w'"
  by (rule calm_bracket [where m = FileLock and w = w]) (auto simp: create_frame_def Let_def split: option.splits)

lemma calm_draw_faces:
  "draw_faces cv g faces (frame, w) = (frame', w') \<Longrightarrow> calm w \<Longrightarrow> calm w'"
proof (induction faces arbitrary: frame w)
  case Nil
  then show ?case by simp
next
  case (Cons face faces)
  let ?w3 = "unlock CascadeLock (cvHaarDetectObjects (lock CascadeLock w))"
  have "calm ?w3" using Cons.prems(2) by (rule calm_detect [rotated]) simp
  with Cons show ?case
    by (auto simp add: Let_def split: prod.splits)
qed

lemma calm_check_image_size: "check_image_size n info w = (r, w') \<Longrightarrow> calm w' = calm w"
  by (auto simp add: check_image_size_def calm_def split: if_splits)

lemma events_read_bytes: "read_bytes n w = (r, w') \<Longrightarrow> events w' = events w"
  by (auto simp: read_bytes_def split: if_splits)

lemma events_check_image_size: "check_image_size n info w = (r, w') \<Longrightarrow> events w' = events w"
  by (auto simp add: check_image_size_def split: if_splits)

lemma events_recv_replacement: "recv_replacement info w = (r, w') \<Longrightarrow> events w' = events w"
  by (fastforce simp: recv_replacement_def Let_def
      split: prod.splits option.splits bool.splits
      dest!: events_read_bytes events_check_image_size)

lemma calm_recv_replacement: "recv_replacement info w = (r, w') \<Longrightarrow> calm w \<Longrightarrow> calm w'"
  by (drule events_recv_replacement) (simp add: calm_def)

lemma calm_create_replacement: "create_replacement cv info w = (r, w') \<Longrightarrow> calm w \<Longrightarrow> calm w'"
proof -
  assume a: "create_replacement cv info w = (r, w')" and c: "calm w"
  obtain r1 w1 where r: "recv_replacement info w = (r1, w1)" by (cases "recv_replacement info w")
  from calm_recv_replacement [OF r c] have c1: "calm w1" .
  show "calm w'"
  proof (cases r1)
    case None
    with a r c1 show ?thesis by (simp add: create_replacement_def)
  next
    case (Some im)
    with a r have "events w' = events w1 @ [Lock FileLock, Unlock FileLock]"
      by (auto simp: create_replacement_def Let_def split: option.splits)
    then show ?thesis using c1 by (rule calm_bracket)
  qed
qed

lemma calm_execute_replacement:
  "execute_replacement cv info frame faces w = (r, w') \<Longrightarrow> calm w \<Longrightarrow> calm w'"
proof -
  assume a: "execute_replacement cv info frame faces w = (r, w')" and c: "calm w"
  obtain r1 w1 where r: "create_replacement cv info w = (r1, w1)" by (cases "create_replacement cv info w")
  from calm_create_replacement [OF r c] have c1: "calm w1" .
  show "calm w'"
  proof (cases r1)
    case None
    with a r c1 show ?thesis by (simp add: execute_replacement_def)
  next
    case (Some im)
    have "calm (replace_face cv frame im faces w1)"
      unfolding replace_face_def using c1 by (rule calm_output)
    then have "calm (unlock StatsLock ((lock StatsLock (replace_face cv frame im faces w1))
       \<lparr>stats := (stats (lock StatsLock (replace_face cv frame im faces w1)))
         \<lparr>faceReplacements := faceReplacements (stats (lock StatsLock (replace_face cv frame im faces w1))) + 1\<rparr>\<rparr>))"
      by (rule calm_bracket [rotated]) simp
    with a r Some show ?thesis by (simp add: execute_replacement_def Let_def)
  qed
qed

lemma find_faces_calm:
  "find_faces cv grey st w = (r, w') \<Longrightarrow> calm w \<Longrightarrow> (if r = None then settled w' else calm w')"
  by (auto simp: find_faces_def Let_def calm_def settled_def thread_run_append idle_def split: if_splits)

lemma settled_events: "events w' = events w \<Longrightarrow> settled w \<Longrightarrow> settled w'"
  by (simp add: settled_def)

lemma image_executor_calm:
  assumes a: "image_executor cv info im sz operation w = (r, w')" and c: "calm w"
  shows "if r then settled w' else calm w'"
proof -
  obtain f1 w1 where cf: "create_frame cv im sz w = (f1, w1)" by (cases "create_frame cv im sz w")
  from calm_create_frame [OF cf c] have c1: "calm w1" .
  show ?thesis
  proof (cases f1)
    case None
    with a cf have "r" "events w' = events w1" by (auto simp: image_executor_def)
    with c1 show ?thesis by (simp add: settled_def calm_def)
  next
    case (Some frame)
    obtain f2 w2 where ff: "find_faces cv (grey_image cv frame) (cvCreateMemStorage cv frame) w1 = (f2, w2)"
      by (cases "find_faces cv (grey_image cv frame) (cvCreateMemStorage cv frame) w1")
    note c2 = find_faces_calm [OF ff c1]
    show ?thesis
    proof (cases f2)
      case None
      with a cf Some ff have "r" "events w' = events w2" by (auto simp: image_executor_def Let_def)
      with c2 None show ?thesis by (simp add: settled_def)
    next
      case faces: (Some faces)
      with c2 have c2': "calm w2" by simp
      show ?thesis
      proof (cases "faces = []")
        case True
        with a cf Some ff faces have "r" "events w' = events w2" by (auto simp: image_executor_def Let_def)
        with c2' show ?thesis by (simp add: settled_def calm_def)
      next
        case nonempty: False
        show ?thesis
        proof (cases "operation = 0")
          case True
          obtain f3 w3 where df: "draw_faces cv (grey_image cv frame) faces (frame, w2) = (f3, w3)"
            by (cases "draw_faces cv (grey_image cv frame) faces (frame, w2)")
          from calm_draw_faces [OF df c2'] have "calm w3" .
          then have "calm (output_face_detection cv f3 w3)" by (rule calm_output)
          then have "calm (unlock StatsLock ((lock StatsLock (output_face_detection cv f3 w3))
             \<lparr>stats := (stats (lock StatsLock (output_face_detection cv f3 w3)))
               \<lparr>faceDetections := faceDetections (stats (lock StatsLock (output_face_detection cv f3 w3))) + 1\<rparr>\<rparr>))"
            by (rule calm_bracket [rotated]) simp
          with a cf Some ff faces nonempty True df show ?thesis
            by (simp add: image_executor_def Let_def)
        next
          case False
          with a cf Some ff faces nonempty
          have e: "execute_replacement cv info frame faces w2 = (r, w')"
            by (simp add: image_executor_def Let_def)
          from calm_execute_replacement [OF e c2'] show ?thesis
            by (simp add: calm_settled)
        qed
      qed
    qed
  qed
qed

lemma events_check_operation: "check_operation w = (r, w') \<Longrightarrow> events w' = events w"
  by (auto simp: check_operation_def split: prod.splits option.splits if_splits
      dest!: events_read_bytes)

lemma events_determine_image_size: "determine_image_size info w = (r, w') \<Longrightarrow> events w' = events w"
  by (fastforce simp: determine_image_size_def Let_def
      split: prod.splits option.splits bool.splits
      dest!: events_read_bytes events_check_image_size)

lemma check_prefix_calm: "check_prefix cv w = (r, w') \<Longrightarrow> calm w \<Longrightarrow> calm w'"
proof -
  assume a: "check_prefix cv w = (r, w')" and c: "calm w"
  have "\<And>bs. calm (w\<lparr>sock_in := bs\<rparr>)" using c by (simp add: calm_def)
  then have "\<And>bs. calm (bad_request cv (w\<lparr>sock_in := bs\<rparr>))"
    "\<And>bs. calm (invalid_message (w\<lparr>sock_in := bs\<rparr>))"
    by (simp_all add: calm_bad_request) (simp add: calm_def)
  with a c show ?thesis
    by (auto simp: check_prefix_cases split: if_splits) (simp add: calm_def)
qed

lemma serve_request_calm:
  assumes c: "calm w"
  shows "if fst (serve_request cv info w) then calm (snd (serve_request cv info w))
         else settled (snd (serve_request cv info w))"
proof -
  obtain r1 w1 where cp: "check_prefix cv w = (r1, w1)" by (cases "check_prefix cv w")
  from check_prefix_calm [OF cp c] have c1: "calm w1" .
  obtain op w2 where co: "check_operation w1 = (op, w2)" by (cases "check_operation w1")
  from events_check_operation [OF co] c1 have c2: "calm w2" by (simp add: calm_def)
  obtain n w3 where ds: "determine_image_size info w2 = (n, w3)" by (cases "determine_image_size info w2")
  from events_determine_image_size [OF ds] c2 have c3: "calm w3" by (simp add: calm_def)
  obtain r4 w4 where rb: "read_bytes (unat n) w3 = (r4, w4)" by (cases "read_bytes (unat n) w3")
  from events_read_bytes [OF rb] c3 have c4: "calm w4" by (simp add: calm_def)
  show ?thesis
  proof (cases r4)
    case None
    from c4 have "settled (invalid_message w4)" by (simp add: settled_def calm_def)
    with cp co ds rb None c1 c2 c3 show ?thesis
      by (auto simp: serve_request_def calm_settled split: bool.splits)
  next
    case (Some im)
    obtain r5 w5 where ie: "image_executor cv info im n op w4 = (r5, w5)"
      by (cases "image_executor cv info im n op w4")
    from image_executor_calm [OF ie c4] cp co ds rb Some ie c1 c2 c3 show ?thesis
      by (auto simp: serve_request_def calm_settled split: bool.splits if_splits)
  qed
qed

lemma task_loop_settled: "calm w \<Longrightarrow> settled (task_loop cv info w)"
proof (induction cv info w rule: task_loop.induct)
  case (1 cv info w)
  show ?case
  proof (cases "fst (serve_request cv info w)")
    case True
    with serve_request_calm [OF "1.prems", of cv info] have "calm (snd (serve_request cv info w))" by simp
    with "1.IH" True show ?thesis by (simp add: task_loop_go)
  next
    case False
    with serve_request_calm [OF "1.prems", of cv info] show ?thesis by (simp add: task_loop_stop)
  qed
qed

lemma worker_well_locked:
  assumes "events w = []"
  shows "well_locked (events (task_executor cv info w))"
proof -
  from assms have "calm w" by (simp add: calm_def)
  then have s: "settled (task_loop cv info w)" by (rule task_loop_settled)
  have "events (task_executor cv info w) = events (task_loop cv info w) @ [Lock StatsLock, Unlock StatsLock]"
    by (simp add: task_executor_def update_client_stats_def Let_def)
  with s show ?thesis
    by (auto simp: well_locked_def settled_def thread_run_append idle_def)
qed

subsection \<open>All workers\<close>

lemma held_after:
  "thread_run s h = Some st \<Longrightarrow>
   (m \<in> held st) =
     foldl (\<lambda>b e. if e = Lock m then True else if e = Unlock m then False else b) (m \<in> held s) h"
proof (induction h arbitrary: s)
  case Nil
  then show ?case by simp
next
  case (Cons e h)
  from Cons.prems obtain s1 where s1: "thread_step s e = Some s1" and r: "thread_run s1 h = Some st"
    by (auto split: option.splits)
  from s1 have "(m \<in> held s1) = (if e = Lock m then True else if e = Unlock m then False else m \<in> held s)"
    by (cases e) (auto split: if_splits)
  with Cons.IH [OF r] show ?case by simp
qed

lemma inside_after:
  "thread_run s h = Some st \<Longrightarrow>
   inside st =
     foldl (\<lambda>b e. if e = DetectorEnter then True else if e = DetectorExit then False else b) (inside s) h"
proof (induction h arbitrary: s)
  case Nil
  then show ?case by simp
next
  case (Cons e h)
  from Cons.prems obtain s1 where s1: "thread_step s e = Some s1" and r: "thread_run s1 h = Some st"
    by (auto split: option.splits)
  from s1 have "inside s1 = (if e = DetectorEnter then True else if e = DetectorExit then False else inside s)"
    by (cases e) (auto split: if_splits)
  with Cons.IH [OF r] show ?case by simp
qed

lemma inside_holds_cascade:
  "thread_run s h = Some st \<Longrightarrow> (inside s \<longrightarrow> CascadeLock \<in> held s) \<Longrightarrow>
   inside st \<longrightarrow> CascadeLock \<in> held st"
proof (induction h arbitrary: s)
  case Nil
  then show ?case by simp
next
  case (Cons e h)
  from Cons.prems obtain s1 where s1: "thread_step s e = Some s1" and r: "thread_run s1 h = Some st"
    by (auto split: option.splits)
  from s1 Cons.prems(2) have "inside s1 \<longrightarrow> CascadeLock \<in> held s1"
    by (cases e) (auto split: if_splits)
  from Cons.IH [OF r this] show ?case .
qed

lemma well_locked_prefix:
  assumes "well_locked h"
  shows "\<exists>st. thread_run idle (take k h) = Some st"
proof -
  have "thread_run idle h =
      (case thread_run idle (take k h) of None \<Rightarrow> None | Some s' \<Rightarrow> thread_run s' (drop k h))"
    using thread_run_append [of idle "take k h" "drop k h"] by simp
  with assms show ?thesis
    by (cases "thread_run idle (take k h)") (simp_all add: well_locked_def)
qed

lemma held_is_holds:
  "thread_run idle h = Some st \<Longrightarrow> (m \<in> held st) = holds h m"
  using held_after [of idle h st m] by (simp add: holds_def idle_def)

lemma inside_is_in_detector:
  "thread_run idle h = Some st \<Longrightarrow> inside st = in_detector h"
  using inside_after [of idle h st] by (simp add: in_detector_def idle_def)

lemma in_detector_holds:
  assumes "well_locked h" and "in_detector (take k h)"
  shows "holds (take k h) CascadeLock"
proof -
  from well_locked_prefix [OF assms(1), of k] obtain st
    where st: "thread_run idle (take k h) = Some st" ..
  from inside_is_in_detector [OF st] assms(2) have "inside st" by simp
  moreover from inside_holds_cascade [OF st] have "inside st \<longrightarrow> CascadeLock \<in> held st"
    by (simp add: idle_def)
  ultimately have "CascadeLock \<in> held st" by simp
  with held_is_holds [OF st, of CascadeLock] show ?thesis by simp
qed

lemma well_locked_next:
  assumes "well_locked h" and "k < length h" and "h ! k = Unlock m"
  shows "holds (take k h) m"
proof -
  from well_locked_prefix [OF assms(1), of "Suc k"] obtain st'
    where "thread_run idle (take (Suc k) h) = Some st'" ..
  with assms(2) have r: "thread_run idle (take k h @ [h ! k]) = Some st'"
    by (simp add: take_Suc_conv_app_nth)
  from well_locked_prefix [OF assms(1), of k] obtain st
    where st: "thread_run idle (take k h) = Some st" ..
  from r st assms(3) have "thread_step st (Unlock m) \<noteq> None"
    by (auto simp add: thread_run_append split: option.splits if_splits)
  then have "m \<in> held st"
    by (simp split: if_splits)
  with held_is_holds [OF st, of m] show ?thesis by simp
qed

lemma holds_snoc:
  "holds (h @ [e]) m = (if e = Lock m then True else if e = Unlock m then False else holds h m)"
  by (simp add: holds_def)

lemma history_step:
  "pc s t < length (prog t) \<Longrightarrow>
   history prog (s\<lparr>pc := (pc s)(t := Suc (pc s t)), owner := ow\<rparr>) u
     = (if u = t then history prog s t @ [prog t ! pc s t] else history prog s u)"
  by (simp add: history_def take_Suc_conv_app_nth)

lemma history_step':
  "pc s t < length (prog t) \<Longrightarrow>
   history prog (s\<lparr>pc := (pc s)(t := Suc (pc s t))\<rparr>) u
     = (if u = t then history prog s t @ [prog t ! pc s t] else history prog s u)"
  by (simp add: history_def take_Suc_conv_app_nth)

lemma owner_is_holder:
  assumes wl: "\<And>t. well_locked (prog t)" and r: "sched_reachable prog s"
  shows "(owner s m = Some t) = holds (history prog s t) m"
  using r
proof (induction arbitrary: m t rule: sched_reachable.induct)
  case sched_start
  show ?case by (simp add: sched_init_def history_def holds_def)
next
  case (sched_next s s')
  from sched_next.hyps(2) show ?case
  proof (cases rule: sched_step.cases)
    case (lock_step u m')
    note ih = sched_next.IH [of m t] sched_next.IH [of m' t]
    from lock_step ih show ?thesis
      by (cases "t = u"; cases "m = m'"; simp add: history_step holds_snoc)
  next
    case (unlock_step u m')
    from unlock_step have "holds (take (pc s u) (prog u)) m'"
      by (intro well_locked_next [OF wl]) simp_all
    then have "holds (history prog s u) m'" by (simp add: history_def)
    with sched_next.IH [of m' u] have o: "owner s m' = Some u" by simp
    note ih = sched_next.IH [of m t] sched_next.IH [of m' t]
    from unlock_step ih o show ?thesis
      by (cases "t = u"; cases "m = m'"; simp add: history_step holds_snoc)
  next
    case (enter_step u)
    with sched_next.IH [of m t] show ?thesis
      by (cases "t = u"; simp add: history_step' holds_snoc)
  next
    case (exit_step u)
    with sched_next.IH [of m t] show ?thesis
      by (cases "t = u"; simp add: history_step' holds_snoc)
  qed
qed

text \<open>
  C9. Let any number of workers run \<open>task_executor\<close>, each on its own connection and
  with any behaviour of the image library, and let their mutex operations and detector
  calls interleave in any way the mutexes allow. In every reachable state, a worker that is
  inside \<open>cvHaarDetectObjects\<close> (for faces or for eyes) holds the cascade mutex and is its
  owner, so no other worker is inside. The early return of \<open>find_faces\<close> is part of
  \<open>task_executor\<close>: it keeps the mutex locked and makes no detector call.
\<close>

theorem one_worker_inside_detector:
  assumes workers: "\<forall>t. events (w t) = [] \<and> prog t = events (task_executor (cv t) (info t) (w t))"
    and reach: "sched_reachable prog s"
    and inside: "in_detector (history prog s t)"
  shows "holds (history prog s t) CascadeLock
    \<and> owner s CascadeLock = Some t
    \<and> (in_detector (history prog s t') \<longrightarrow> t' = t)"
proof -
  have wl: "well_locked (prog u)" for u
  proof -
    from workers have "events (w u) = []"
      and p: "prog u = events (task_executor (cv u) (info u) (w u))" by simp_all
    from worker_well_locked [OF this(1), of "cv u" "info u"] p show ?thesis by simp
  qed
  have h: "holds (history prog s u) CascadeLock" if "in_detector (history prog s u)" for u
    using in_detector_holds [OF wl [of u], of "pc s u"] that by (simp add: history_def)
  have o: "owner s CascadeLock = Some u" if "in_detector (history prog s u)" for u
    using h [OF that] owner_is_holder [OF wl reach, of CascadeLock u] by simp
  show ?thesis
  proof (intro conjI impI)
    show "holds (history prog s t) CascadeLock" by (rule h [OF inside])
    show "owner s CascadeLock = Some t" by (rule o [OF inside])
    show "t' = t" if "in_detector (history prog s t')"
      using o [OF that] o [OF inside] by simp
  qed
qed

lemma toy_prog_events:
  "toy_prog t =
     [Lock FileLock, Unlock FileLock,
      Lock CascadeLock, DetectorEnter, DetectorExit, Unlock CascadeLock,
      Lock CascadeLock, DetectorEnter, DetectorExit, Unlock CascadeLock,
      Lock FileLock, Unlock FileLock, Lock StatsLock, Unlock StatsLock,
      Lock StatsLock, Unlock StatsLock]"
proof -
  let ?w = "fresh_world [0x31, 0x72, 0x10, 0x23, 0, 1, 0, 0, 0, 7]"
  have s: "serve_request toy_cv toy_info ?w =
      (True, snd (image_executor toy_cv toy_info [7] 1 0 (?w\<lparr>sock_in := []\<rparr>)))"
    by (rule toy_serve) (simp add: fresh_world_def)
  have l: "task_loop toy_cv toy_info ?w =
      invalid_message ((snd (image_executor toy_cv toy_info [7] 1 0 (?w\<lparr>sock_in := []\<rparr>)))
          \<lparr>sock_in := []\<rparr>)"
    apply (subst task_loop_go)
     apply (simp add: s)
    apply (simp add: s toy_detect)
    apply (subst task_loop_stop)
     apply (simp add: serve_request_def check_prefix_cases)
    apply (simp add: serve_request_def check_prefix_cases)
    done
  show ?thesis
    unfolding toy_prog_def task_executor_def l
    by (simp add: Let_def update_client_stats_def toy_detect fresh_world_def toy_info_def)
qed

lemma toy_sched_reachable: "sched_reachable toy_prog toy_sched"
proof -
  let ?s0 = "sched_init"
  let ?s1 = "?s0\<lparr>pc := (pc ?s0)(0 := Suc (pc ?s0 0)), owner := (owner ?s0)(FileLock := Some 0)\<rparr>"
  let ?s2 = "?s1\<lparr>pc := (pc ?s1)(0 := Suc (pc ?s1 0)), owner := (owner ?s1)(FileLock := None)\<rparr>"
  let ?s3 = "?s2\<lparr>pc := (pc ?s2)(0 := Suc (pc ?s2 0)), owner := (owner ?s2)(CascadeLock := Some 0)\<rparr>"
  let ?s4 = "?s3\<lparr>pc := (pc ?s3)(0 := Suc (pc ?s3 0))\<rparr>"
  have "sched_step toy_prog ?s0 ?s1"
    by (rule sched_step.lock_step) (simp_all add: toy_prog_events sched_init_def)
  with sched_reachable.sched_start have r1: "sched_reachable toy_prog ?s1"
    by (rule sched_reachable.sched_next)
  have "sched_step toy_prog ?s1 ?s2"
    by (rule sched_step.unlock_step) (simp_all add: toy_prog_events sched_init_def)
  with r1 have r2: "sched_reachable toy_prog ?s2"
    by (rule sched_reachable.sched_next)
  have "sched_step toy_prog ?s2 ?s3"
    by (rule sched_step.lock_step) (simp_all add: toy_prog_events sched_init_def)
  with r2 have r3: "sched_reachable toy_prog ?s3"
    by (rule sched_reachable.sched_next)
  have "sched_step toy_prog ?s3 ?s4"
    by (rule sched_step.enter_step) (simp_all add: toy_prog_events sched_init_def)
  with r3 have r4: "sched_reachable toy_prog ?s4"
    by (rule sched_reachable.sched_next)
  have "?s4 = toy_sched"
    by (auto simp: toy_sched_def sched_init_def fun_eq_iff)
  with r4 show ?thesis by simp
qed

theorem one_worker_inside_detector_witness:
  "events (fresh_world [0x31, 0x72, 0x10, 0x23, 0, 1, 0, 0, 0, 7]) = []
   \<and> sched_reachable toy_prog toy_sched
   \<and> in_detector (history toy_prog toy_sched 0)
   \<and> holds (history toy_prog toy_sched 0) CascadeLock
   \<and> owner toy_sched CascadeLock = Some 0"
proof -
  have w: "\<forall>t. events (fresh_world [0x31, 0x72, 0x10, 0x23, 0, 1, 0, 0, 0, 7]) = []
     \<and> toy_prog t = events (task_executor toy_cv toy_info (fresh_world [0x31, 0x72, 0x10, 0x23, 0, 1, 0, 0, 0, 7]))"
    by (simp add: toy_prog_def fresh_world_def)
  have i: "in_detector (history toy_prog toy_sched 0)"
    by (simp add: history_def toy_sched_def toy_prog_events in_detector_def)
  from one_worker_inside_detector [of "\<lambda>t. fresh_world [0x31, 0x72, 0x10, 0x23, 0, 1, 0, 0, 0, 7]" toy_prog "\<lambda>t. toy_cv" "\<lambda>t. toy_info", OF w toy_sched_reachable i]
    toy_sched_reachable i
  show ?thesis by (simp add: fresh_world_def)
qed

end
